theory Spec2Isabelle
  imports Complex_Main "HOL-Library.Multiset"
begin

section \<open>Instruction text and the analyzer's regular expressions\<close>

text \<open>
  Instruction strings are modelled as lists of 8-bit characters and are taken to be
  ASCII text: \<open>toLowerCase\<close> and the \<open>i\<close> flag fold only \<open>A\<close>..\<open>Z\<close>, and \<open>\s\<close> is the
  ASCII white space. The regular expressions of \<open>RouteAnalyzer\<close> use nothing but
  literal text, \<open>\s+\<close>, \<open>\d+\<close>, a character set, an optional character, an
  alternation of literals and \<open>\b\<close>; a pattern is a sequence of such atoms and every
  pattern carries the \<open>i\<close> flag.
\<close>

definition lower_char :: "char \<Rightarrow> char" where
  "lower_char c =
     (case map_of (zip ''ABCDEFGHIJKLMNOPQRSTUVWXYZ'' ''abcdefghijklmnopqrstuvwxyz'') c of
        Some d \<Rightarrow> d
      | None \<Rightarrow> c)"

definition toLowerCase :: "string \<Rightarrow> string" where
  "toLowerCase s = map lower_char s"

definition is_space :: "char \<Rightarrow> bool" where
  "is_space c = (c \<in> set [CHR '' '', CHR 0x09, CHR 0x0A, CHR 0x0B, CHR 0x0C, CHR 0x0D])"

definition is_digit :: "char \<Rightarrow> bool" where
  "is_digit c = (c \<in> set ''0123456789'')"

definition is_word_char :: "char \<Rightarrow> bool" where
  "is_word_char c =
     (c \<in> set ''abcdefghijklmnopqrstuvwxyzABCDEFGHIJKLMNOPQRSTUVWXYZ0123456789_'')"

datatype atom =
    Lit string
  | Spaces
  | Digits
  | OneOf string
  | Opt char
  | Alts "string list"
  | WordB

type_synonym regex = "atom list"

fun ci_prefix :: "string \<Rightarrow> string \<Rightarrow> bool" where
  "ci_prefix [] t = True"
| "ci_prefix (p # ps) [] = False"
| "ci_prefix (p # ps) (c # cs) = (if lower_char p = lower_char c then ci_prefix ps cs else False)"

fun after_run :: "(char \<Rightarrow> bool) \<Rightarrow> string \<Rightarrow> (char \<times> string) list" where
  "after_run P [] = []"
| "after_run P (c # cs) = (if P c then (c, cs) # after_run P cs else [])"

definition word_before :: "char option \<Rightarrow> bool" where
  "word_before prev = (case prev of None \<Rightarrow> False | Some c \<Rightarrow> is_word_char c)"

definition word_after :: "string \<Rightarrow> bool" where
  "word_after t = (case t of [] \<Rightarrow> False | c # _ \<Rightarrow> is_word_char c)"

definition last_of :: "char option \<Rightarrow> string \<Rightarrow> char option" where
  "last_of prev s = (if s = [] then prev else Some (last s))"

text \<open>
  \<open>match_at r prev t\<close>: the pattern \<open>r\<close> matches a prefix of \<open>t\<close>, where \<open>prev\<close> is the
  character just before \<open>t\<close> in the searched text (needed by \<open>\b\<close> only). Repetitions
  try every length of the run, which is what backtracking amounts to for a yes/no
  answer.
\<close>

fun match_at :: "regex \<Rightarrow> char option \<Rightarrow> string \<Rightarrow> bool" where
  "match_at [] prev t = True"
| "match_at (Lit s # r) prev t =
     (if ci_prefix s t
      then match_at r (last_of prev (take (length s) t)) (drop (length s) t) else False)"
| "match_at (Spaces # r) prev t =
     list_ex (\<lambda>(p, t'). match_at r (Some p) t') (after_run is_space t)"
| "match_at (Digits # r) prev t =
     list_ex (\<lambda>(p, t'). match_at r (Some p) t') (after_run is_digit t)"
| "match_at (OneOf cs # r) prev t =
     (case t of [] \<Rightarrow> False
      | c # t' \<Rightarrow>
          if lower_char c \<in> set (map lower_char cs) then match_at r (Some c) t' else False)"
| "match_at (Opt c # r) prev t =
     (if (case t of [] \<Rightarrow> False
          | d # t' \<Rightarrow> if lower_char c = lower_char d then match_at r (Some d) t' else False)
      then True else match_at r prev t)"
| "match_at (Alts ss # r) prev t =
     list_ex (\<lambda>s. if ci_prefix s t
                  then match_at r (last_of prev (take (length s) t)) (drop (length s) t)
                  else False) ss"
| "match_at (WordB # r) prev t =
     (if word_before prev \<noteq> word_after t then match_at r prev t else False)"

fun search :: "regex \<Rightarrow> char option \<Rightarrow> string \<Rightarrow> bool" where
  "search r prev [] = match_at r prev []"
| "search r prev (c # cs) = (if match_at r prev (c # cs) then True else search r (Some c) cs)"

text \<open>\<open>pattern.test(text)\<close>: the pattern matches somewhere in the text.\<close>

definition test :: "regex \<Rightarrow> string \<Rightarrow> bool" where
  "test r s = search r None s"

definition matchesAny :: "regex list \<Rightarrow> string \<Rightarrow> bool" where
  "matchesAny patterns txt = list_ex (\<lambda>pattern. test pattern txt) patterns"

subsection \<open>The pattern tables\<close>

definition COMPLEX_MANEUVERS :: "string \<rightharpoonup> string" where
  "COMPLEX_MANEUVERS = map_of
    [(''roundabout-left'', ''roundabout''),
     (''roundabout-right'', ''roundabout''),
     (''merge'', ''merge''),
     (''fork-left'', ''fork''),
     (''fork-right'', ''fork''),
     (''ramp-left'', ''merge''),
     (''ramp-right'', ''merge''),
     (''turn-sharp-left'', ''sharp-turn''),
     (''turn-sharp-right'', ''sharp-turn''),
     (''uturn-left'', ''uturn''),
     (''uturn-right'', ''uturn'')]"

definition ROUNDABOUT_PATTERNS :: "regex list" where
  "ROUNDABOUT_PATTERNS =
    [[Lit ''roundabout''],
     [Lit ''exit'', Spaces, Lit ''the'', Spaces, Lit ''roundabout''],
     [Lit ''traffic'', Spaces, Lit ''circle''],
     [Lit ''gyratory''],
     [Lit ''rotary''],
     [Lit ''take'', Spaces, Lit ''the'', Spaces, Digits,
      Alts [''st'', ''nd'', ''rd'', ''th''], Spaces, Lit ''exit'']]"

definition LANE_COMMITMENT_PATTERNS :: "regex list" where
  "LANE_COMMITMENT_PATTERNS =
    [[Lit ''keep'', Spaces, Lit ''left''],
     [Lit ''keep'', Spaces, Lit ''right''],
     [Lit ''use'', Spaces, Lit ''the'', Spaces, Lit ''left'', Spaces, Lit ''lane''],
     [Lit ''use'', Spaces, Lit ''the'', Spaces, Lit ''right'', Spaces, Lit ''lane''],
     [Lit ''stay'', Spaces, Lit ''in'', Spaces, Lit ''the'', Spaces, Lit ''left''],
     [Lit ''stay'', Spaces, Lit ''in'', Spaces, Lit ''the'', Spaces, Lit ''right''],
     [Lit ''merge''],
     [Lit ''slip'', Spaces, Lit ''road''],
     [Lit ''exit''],
     [Lit ''take'', Spaces, Lit ''the'', Spaces, Lit ''ramp''],
     [Lit ''keep'', Spaces, Lit ''to'']]"

definition PREPARE_PATTERNS :: "regex list" where
  "PREPARE_PATTERNS =
    [[Lit ''prepare''],
     [Lit ''keep''],
     [Lit ''merge''],
     [Lit ''exit''],
     [Lit ''take'', Spaces, Lit ''the'', Spaces, Lit ''ramp'']]"

definition VISUAL_OVERLOAD_PATTERNS :: "regex list" where
  "VISUAL_OVERLOAD_PATTERNS =
    [[Lit ''sign'', Opt CHR ''s''],
     [Lit ''towards''],
     [WordB, Lit ''A'', Digits, WordB],
     [WordB, Lit ''M'', Digits, WordB],
     [WordB, Lit ''B'', Digits, WordB],
     [Lit ''destination''],
     [Lit ''follow'']]"

definition SOCIAL_PRESSURE_PATTERNS :: "regex list" where
  "SOCIAL_PRESSURE_PATTERNS =
    [[Lit ''city'', Spaces, Lit ''centre''],
     [Lit ''airport''],
     [Lit ''hospital'']]"

definition COMPLEXITY_KEYWORDS :: "(regex \<times> string) list" where
  "COMPLEXITY_KEYWORDS =
    [([Lit ''merge'', Spaces, Lit ''onto''], ''merge''),
     ([Lit ''take'', Spaces, Lit ''the'', Spaces, Lit ''ramp''], ''merge''),
     ([Lit ''keep'', Spaces, Alts [''left'', ''right'']], ''fork''),
     ([Lit ''fork''], ''fork''),
     ([Lit ''sharp'', Spaces, Alts [''left'', ''right'']], ''sharp-turn''),
     ([Lit ''u-turn''], ''uturn''),
     ([Lit ''lane''], ''complex''),
     ([Lit ''slip'', Spaces, Lit ''road''], ''merge'')]"

definition SPACING_METERS :: real where "SPACING_METERS = 150"
definition MIN_TARGET_POINTS :: int where "MIN_TARGET_POINTS = 6"
definition MAX_TARGET_POINTS :: int where "MAX_TARGET_POINTS = 12"
definition DECISION_SCORE_THRESHOLD :: int where "DECISION_SCORE_THRESHOLD = 8"

section \<open>The route and the flattened steps\<close>

text \<open>
  Numbers that are coordinates, angles or distances between coordinates are real
  numbers (the idealisation of JavaScript's doubles: no rounding, no \<open>NaN\<close>); distances
  in metres as the routing service reports them, and scores, are integers. A field
  that may be absent is an \<open>option\<close>. Two fields are renamed because their names are
  taken: \<open>type\<close> is \<open>jtype\<close>, and the \<open>maneuver\<close> of a flattened entry is
  \<open>entry_maneuver\<close> (the raw step keeps \<open>maneuver\<close>).
\<close>

datatype error = TypeError

record LatLng =
  ll_lat :: real
  ll_lng :: real

record Distance =
  dist_value :: int
  dist_text :: string

record directions_step =
  start_location :: "LatLng option"
  end_location :: "LatLng option"
  instructions :: "string option"
  distance :: "Distance option"
  maneuver :: "string option"

text \<open>
  A leg's \<open>leg_distance\<close> is \<open>Some v\<close> when \<open>leg.distance\<close> is present and its \<open>value\<close>
  is a number, and \<open>None\<close> otherwise.
\<close>

record directions_leg =
  leg_distance :: "int option"
  leg_steps :: "directions_step list"

record directions_route =
  legs :: "directions_leg list"

record directions_result =
  routes :: "directions_route list option"

record flat_step =
  orderIndex :: nat
  legIndex :: nat
  stepIndex :: nat
  step :: directions_step
  heading :: real
  lat :: real
  lng :: real
  instructionHtml :: string
  instruction :: string
  distanceMeters :: int
  distanceText :: string
  entry_maneuver :: "string option"

text \<open>The object returned by \<open>scoreStep\<close>.\<close>

record scored =
  score :: int
  reasons :: "string list"
  exclude :: bool
  jtype :: string
  isPrimary :: bool

text \<open>\<open>{ ...entry, ...scored }\<close> and \<open>{ ...step, isLeadIn: ... }\<close>.\<close>

record scored_step = flat_step +
  scored :: scored

record selected_step = scored_step +
  isLeadIn :: bool

record score_context =
  ctx_next :: "flat_step option"
  ctx_prev :: "flat_step option"

text \<open>\<open>a || b\<close> on strings, and the truthiness of an optional string.\<close>

definition str_or :: "string \<Rightarrow> string \<Rightarrow> string" where
  "str_or a b = (if a \<noteq> [] then a else b)"

definition opt_str :: "string option \<Rightarrow> string" where
  "opt_str s = (case s of None \<Rightarrow> [] | Some t \<Rightarrow> t)"

section \<open>Scoring a step\<close>

text \<open>
  \<open>step.maneuver && COMPLEX_MANEUVERS[step.maneuver]\<close>: the table entry of a non-empty
  maneuver code. Codes are those of the routing vocabulary, so the lookup never reaches
  a property that the table object inherits.
\<close>

definition maneuver_type :: "directions_step \<Rightarrow> string option" where
  "maneuver_type st =
     (case maneuver st of None \<Rightarrow> None
      | Some m \<Rightarrow> if m = [] then None else COMPLEX_MANEUVERS m)"

definition isRoundaboutStep :: "directions_step \<Rightarrow> string \<Rightarrow> bool" where
  "isRoundaboutStep st html =
     (let instr = str_or html (opt_str (instructions st)) in
      if maneuver_type st = Some ''roundabout'' then True
      else list_ex (\<lambda>pattern. test pattern instr) ROUNDABOUT_PATTERNS)"

definition hasComplexitySignal :: "directions_step \<Rightarrow> string \<Rightarrow> bool" where
  "hasComplexitySignal st html =
     (let instr = str_or html (opt_str (instructions st)) in
      list_ex (\<lambda>kw. test (fst kw) instr) COMPLEXITY_KEYWORDS \<or>
      list_ex (\<lambda>pattern. test pattern instr) ROUNDABOUT_PATTERNS \<or>
      list_ex (\<lambda>pattern. test pattern instr) LANE_COMMITMENT_PATTERNS)"

definition isPrepareStep :: "string \<Rightarrow> bool" where
  "isPrepareStep instr = list_ex (\<lambda>pattern. test pattern instr) PREPARE_PATTERNS"

definition isMajorManeuver :: "directions_step option \<Rightarrow> bool" where
  "isMajorManeuver sto =
     (case sto of None \<Rightarrow> False
      | Some st \<Rightarrow>
          if maneuver_type st \<noteq> None then True
          else if maneuver st = Some ''turn-left'' \<or> maneuver st = Some ''turn-right'' then True
          else hasComplexitySignal st (opt_str (instructions st)))"

definition hasExitOrdinal :: "string \<Rightarrow> bool" where
  "hasExitOrdinal instr =
     test [Digits, Alts [''st'', ''nd'', ''rd'', ''th''], Spaces, Lit ''exit''] instr"

definition isMotorwayCruise :: "string \<Rightarrow> bool" where
  "isMotorwayCruise instr =
     (let isCruise =
            (test [Lit ''continue'', Spaces, Lit ''on'', Spaces, OneOf ''am'', Digits] instr \<or>
             test [Lit ''continue'', Spaces, Lit ''for'', Spaces, Digits] instr \<or>
             test [Lit ''continue'', Spaces, Lit ''straight''] instr);
          hasLaneCue =
            (matchesAny LANE_COMMITMENT_PATTERNS instr \<or>
             test [Lit ''exit''] instr \<or>
             test [Lit ''merge''] instr)
      in isCruise \<and> \<not> hasLaneCue)"

definition deriveType :: "directions_step \<Rightarrow> string \<Rightarrow> string" where
  "deriveType st html =
     (if isRoundaboutStep st html then ''roundabout''
      else case maneuver_type st of
        Some t \<Rightarrow> t
      | None \<Rightarrow>
          (case find (\<lambda>kw. test (fst kw) html) COMPLEXITY_KEYWORDS of
             Some kw \<Rightarrow> snd kw
           | None \<Rightarrow> ''complex''))"

definition scoreStep :: "flat_step \<Rightarrow> score_context option \<Rightarrow> scored" where
  "scoreStep entry ctx =
     (let instr = str_or (instruction entry) [];
          html = str_or (instructionHtml entry) [];
          lower = toLowerCase instr
      in
      if isMotorwayCruise lower then
        \<lparr>score = 0, reasons = [''motorway-cruise''], exclude = True,
         jtype = deriveType (step entry) html, isPrimary = False\<rparr>
      else
        let (sc, rs) = (0 :: int, [] :: string list);
            (sc, rs) =
              (if matchesAny LANE_COMMITMENT_PATTERNS lower
               then (sc + 6, rs @ [''lane-commitment'']) else (sc, rs));
            isRoundabout = isRoundaboutStep (step entry) html;
            (sc, rs) =
              (if isRoundabout then
                 (let (sc, rs) = (sc + 4, rs @ [''roundabout'']) in
                  if hasExitOrdinal lower
                  then (sc + 2, rs @ [''roundabout-exit''])
                  else if distanceMeters entry > 0 \<and> distanceMeters entry < 120
                  then (sc - 3, rs @ [''small-roundabout''])
                  else (sc, rs))
               else (sc, rs));
            (sc, rs) =
              (case ctx of None \<Rightarrow> (sc, rs)
               | Some c \<Rightarrow>
                  (case ctx_next c of None \<Rightarrow> (sc, rs)
                   | Some nxt \<Rightarrow>
                      if isPrepareStep lower \<and> isMajorManeuver (Some (step nxt)) then
                        (let nextDistance = distanceMeters nxt in
                         if nextDistance > 0 \<and> nextDistance \<le> 120
                         then (sc + 6, rs @ [''short-window''])
                         else if nextDistance > 0 \<and> nextDistance \<le> 250
                         then (sc + 4, rs @ [''short-window''])
                         else (sc, rs))
                      else (sc, rs)));
            (sc, rs) =
              (if matchesAny VISUAL_OVERLOAD_PATTERNS html \<or>
                  matchesAny VISUAL_OVERLOAD_PATTERNS lower
               then (sc + 2, rs @ [''signage'']) else (sc, rs));
            (sc, rs) =
              (if matchesAny SOCIAL_PRESSURE_PATTERNS lower
               then (sc + 1, rs @ [''pressure'']) else (sc, rs))
        in
        if \<not> hasComplexitySignal (step entry) html \<and> sc = 0 then
          \<lparr>score = 0, reasons = rs, exclude = True,
           jtype = deriveType (step entry) html, isPrimary = False\<rparr>
        else
          \<lparr>score = sc, reasons = rs, exclude = False,
           jtype = deriveType (step entry) html, isPrimary = isRoundabout\<rparr>)"

section \<open>Flattening the legs\<close>

text \<open>
  What the analyzer takes from its surroundings: the text content the browser's DOM
  extracts from markup (\<open>textContent\<close>, \<open>innerText\<close>) and, when the maps geometry
  library is loaded, its \<open>computeHeading\<close>.
\<close>

record environment =
  textContent :: "string \<Rightarrow> string"
  innerText :: "string \<Rightarrow> string"
  google_computeHeading :: "(LatLng option \<Rightarrow> LatLng option \<Rightarrow> error + real) option"

definition toRad :: "real \<Rightarrow> real" where
  "toRad deg = deg * pi / 180"

definition toDeg :: "real \<Rightarrow> real" where
  "toDeg rad = rad * 180 / pi"

definition atan2 :: "real \<Rightarrow> real \<Rightarrow> real" where
  "atan2 y x =
     (if x > 0 then arctan (y / x)
      else if x < 0 \<and> y \<ge> 0 then arctan (y / x) + pi
      else if x < 0 then arctan (y / x) - pi
      else if y > 0 then pi / 2
      else if y < 0 then - pi / 2
      else 0)"

text \<open>The remainder operator \<open>%\<close>: the quotient is truncated towards zero.\<close>

definition js_rem :: "real \<Rightarrow> real \<Rightarrow> real" where
  "js_rem a b =
     a - b * of_int (if a / b \<ge> 0 then \<lfloor>a / b\<rfloor> else \<lceil>a / b\<rceil>)"

definition computeHeading ::
  "environment \<Rightarrow> LatLng option \<Rightarrow> LatLng option \<Rightarrow> error + real" where
  "computeHeading env from to =
     (case google_computeHeading env of
        Some g \<Rightarrow> g from to
      | None \<Rightarrow>
          (case from of None \<Rightarrow> Inl TypeError
           | Some a \<Rightarrow>
              (case to of None \<Rightarrow> Inl TypeError
               | Some b \<Rightarrow>
                  let lat1 = toRad (ll_lat a);
                      lat2 = toRad (ll_lat b);
                      dLng = toRad (ll_lng b - ll_lng a);
                      y = sin dLng * cos lat2;
                      x = cos lat1 * sin lat2 - sin lat1 * cos lat2 * cos dLng
                  in Inr (js_rem (toDeg (atan2 y x) + 360) 360))))"

definition stripHtml :: "environment \<Rightarrow> string \<Rightarrow> string" where
  "stripHtml env html = str_or (textContent env html) (str_or (innerText env html) [])"

text \<open>
  The body of the inner \<open>forEach\<close> of \<open>flattenSteps\<close>: the entry pushed for one step.
  Reading \<open>lat()\<close> of an absent \<open>start_location\<close> throws.
\<close>

definition flat_entry ::
  "environment \<Rightarrow> nat \<Rightarrow> nat \<Rightarrow> nat \<Rightarrow> directions_step \<Rightarrow> error + flat_step" where
  "flat_entry env oi li si st =
     (case computeHeading env (start_location st) (end_location st) of
        Inl e \<Rightarrow> Inl e
      | Inr h \<Rightarrow>
          let html = str_or (opt_str (instructions st)) [];
              txt = stripHtml env html
          in (case start_location st of
                None \<Rightarrow> Inl TypeError
              | Some loc \<Rightarrow>
                  Inr \<lparr>orderIndex = oi, legIndex = li, stepIndex = si, step = st,
                       heading = h, lat = ll_lat loc, lng = ll_lng loc,
                       instructionHtml = html, instruction = txt,
                       distanceMeters = (case distance st of None \<Rightarrow> 0 | Some d \<Rightarrow> dist_value d),
                       distanceText = (case distance st of None \<Rightarrow> [] | Some d \<Rightarrow> dist_text d),
                       entry_maneuver =
                         (case maneuver st of None \<Rightarrow> None
                          | Some m \<Rightarrow> if m = [] then None else Some m)\<rparr>))"

text \<open>
  The two nested \<open>forEach\<close> loops; the accumulator is the list \<open>flat\<close> together with the
  counter \<open>orderIndex\<close>.
\<close>

fun flatten_leg ::
  "environment \<Rightarrow> nat \<Rightarrow> directions_step list \<Rightarrow> nat \<Rightarrow> flat_step list \<times> nat \<Rightarrow>
   error + flat_step list \<times> nat" where
  "flatten_leg env li [] si acc = Inr acc"
| "flatten_leg env li (st # sts) si acc =
     (case flat_entry env (snd acc) li si st of
        Inl e \<Rightarrow> Inl e
      | Inr en \<Rightarrow> flatten_leg env li sts (Suc si) (fst acc @ [en], snd acc + 1))"

fun flatten_legs ::
  "environment \<Rightarrow> directions_leg list \<Rightarrow> nat \<Rightarrow> flat_step list \<times> nat \<Rightarrow>
   error + flat_step list \<times> nat" where
  "flatten_legs env [] li acc = Inr acc"
| "flatten_legs env (leg # ls) li acc =
     (case flatten_leg env li (leg_steps leg) 0 acc of
        Inl e \<Rightarrow> Inl e
      | Inr acc' \<Rightarrow> flatten_legs env ls (Suc li) acc')"

definition flattenSteps :: "environment \<Rightarrow> directions_route \<Rightarrow> error + flat_step list" where
  "flattenSteps env route =
     (case flatten_legs env (legs route) 0 ([], 0) of
        Inl e \<Rightarrow> Inl e
      | Inr acc \<Rightarrow> Inr (fst acc))"

definition scoreSteps :: "flat_step list \<Rightarrow> scored_step list" where
  "scoreSteps steps =
     map (\<lambda>idx.
            let entry = steps ! idx;
                nxt = (if idx + 1 < length steps then Some (steps ! (idx + 1)) else None);
                prv = (if 1 \<le> idx then Some (steps ! (idx - 1)) else None)
            in flat_step.extend entry
                 (scored_step.fields (scoreStep entry (Some \<lparr>ctx_next = nxt, ctx_prev = prv\<rparr>))))
         [0..<length steps]"

section \<open>Selecting the rehearsal steps\<close>

text \<open>
  \<open>Array.prototype.sort\<close> with a comparator is stable; the result is computed here by
  insertion from the right, which keeps equal elements in their original order.
\<close>

fun insert_by :: "('a \<Rightarrow> 'a \<Rightarrow> int) \<Rightarrow> 'a \<Rightarrow> 'a list \<Rightarrow> 'a list" where
  "insert_by cmp x [] = [x]"
| "insert_by cmp x (y # ys) = (if cmp x y \<le> 0 then x # y # ys else y # insert_by cmp x ys)"

definition sort_by :: "('a \<Rightarrow> 'a \<Rightarrow> int) \<Rightarrow> 'a list \<Rightarrow> 'a list" where
  "sort_by cmp xs = foldr (insert_by cmp) xs []"

definition haversineDistance :: "real \<Rightarrow> real \<Rightarrow> real \<Rightarrow> real \<Rightarrow> real" where
  "haversineDistance lat1 lng1 lat2 lng2 =
     (let R = 6371000;
          dLat = toRad (lat2 - lat1);
          dLng = toRad (lng2 - lng1);
          a = (sin (dLat / 2))\<^sup>2 + cos (toRad lat1) * cos (toRad lat2) * (sin (dLng / 2))\<^sup>2
      in R * 2 * atan2 (sqrt a) (sqrt (1 - a)))"

definition isTooClose ::
  "'a flat_step_scheme \<Rightarrow> 'b flat_step_scheme list \<Rightarrow> real \<Rightarrow> bool" where
  "isTooClose candidate selected thresholdMeters =
     list_ex (\<lambda>existing.
                haversineDistance (lat candidate) (lng candidate) (lat existing) (lng existing)
                  < thresholdMeters) selected"

definition clamp :: "int \<Rightarrow> int \<Rightarrow> int \<Rightarrow> int" where
  "clamp v lo hi = max lo (min hi v)"

text \<open>\<open>Math.round\<close>: the nearest integer, a half rounded up.\<close>

definition Math_round :: "real \<Rightarrow> int" where
  "Math_round x = \<lfloor>x + 1 / 2\<rfloor>"

definition totalMeters :: "directions_route \<Rightarrow> int" where
  "totalMeters route =
     fold (\<lambda>leg total. case leg_distance leg of Some v \<Rightarrow> total + v | None \<Rightarrow> total)
          (legs route) 0"

definition getTargetCount :: "directions_route \<Rightarrow> int" where
  "getTargetCount route =
     (let total = totalMeters route in
      if total = 0 then 8
      else
        let totalKm = real_of_int total / 1000;
            target = Math_round (totalKm / 7) + 5
        in clamp target MIN_TARGET_POINTS MAX_TARGET_POINTS)"

definition getLeadInStep :: "'a flat_step_scheme \<Rightarrow> scored_step list \<Rightarrow> scored_step option" where
  "getLeadInStep st steps =
     (if orderIndex st = 0 \<or> \<not> orderIndex st - 1 < length steps then None
      else
        let prv = steps ! (orderIndex st - 1) in
        if distanceMeters prv > 40 \<or> isPrepareStep (toLowerCase (instruction prv))
        then Some prv else None)"

text \<open>The loop over \<open>sorted\<close> that fills \<open>selectedMain\<close>, with its \<open>break\<close> and \<open>continue\<close>.\<close>

fun select_main ::
  "int \<Rightarrow> scored_step list \<Rightarrow> scored_step list \<Rightarrow> scored_step list" where
  "select_main target [] selectedMain = selectedMain"
| "select_main target (candidate # rest) selectedMain =
     (if int (length selectedMain) \<ge> target then selectedMain
      else if isTooClose candidate selectedMain SPACING_METERS
      then select_main target rest selectedMain
      else select_main target rest (selectedMain @ [candidate]))"

text \<open>
  The \<open>Map\<close> from order index to selected step, in insertion order: \<open>set\<close> replaces the
  value of a key that is present and appends a new key at the end.
\<close>

fun map_set :: "(nat \<times> 'v) list \<Rightarrow> nat \<Rightarrow> 'v \<Rightarrow> (nat \<times> 'v) list" where
  "map_set [] k v = [(k, v)]"
| "map_set (p # ps) k v = (if fst p = k then (k, v) # ps else p # map_set ps k v)"

definition map_has :: "(nat \<times> 'v) list \<Rightarrow> nat \<Rightarrow> bool" where
  "map_has m k = (k \<in> set (map fst m))"

definition map_values :: "(nat \<times> 'v) list \<Rightarrow> 'v list" where
  "map_values m = map snd m"

definition as_main :: "scored_step \<Rightarrow> selected_step" where
  "as_main st = scored_step.extend st (selected_step.fields False)"

definition as_lead_in :: "scored_step \<Rightarrow> selected_step" where
  "as_lead_in leadIn =
     scored_step.extend
       (leadIn\<lparr>scored := (scored leadIn)\<lparr>reasons := reasons (scored leadIn) @ [''lead-in'']\<rparr>\<rparr>)
       (selected_step.fields True)"

definition add_lead_in ::
  "scored_step list \<Rightarrow> scored_step \<Rightarrow> (nat \<times> selected_step) list \<Rightarrow> (nat \<times> selected_step) list"
  where
  "add_lead_in steps st selected =
     (case getLeadInStep st steps of
        None \<Rightarrow> selected
      | Some leadIn \<Rightarrow>
          if \<not> map_has selected (orderIndex leadIn)
          then map_set selected (orderIndex leadIn) (as_lead_in leadIn)
          else selected)"

text \<open>The body shared by the two \<open>while\<close> loops of \<open>trimToMaxPoints\<close>.\<close>

fun remove_while_over :: "selected_step list \<Rightarrow> selected_step list \<Rightarrow> selected_step list" where
  "remove_while_over result [] = result"
| "remove_while_over result (toRemove # queue) =
     (if int (length result) > MAX_TARGET_POINTS
      then remove_while_over (filter (\<lambda>pt. orderIndex pt \<noteq> orderIndex toRemove) result) queue
      else result)"

definition by_score :: "'a scored_step_scheme \<Rightarrow> 'a scored_step_scheme \<Rightarrow> int" where
  "by_score a b = score (scored a) - score (scored b)"

definition by_order :: "'a flat_step_scheme \<Rightarrow> 'a flat_step_scheme \<Rightarrow> int" where
  "by_order a b = int (orderIndex a) - int (orderIndex b)"

definition trimToMaxPoints :: "selected_step list \<Rightarrow> selected_step list" where
  "trimToMaxPoints pts =
     (let leadIns = sort_by by_score (filter (\<lambda>pt. isLeadIn pt) pts);
          result = remove_while_over pts leadIns;
          result =
            (if int (length result) > MAX_TARGET_POINTS
             then remove_while_over result
                    (sort_by by_score (filter (\<lambda>pt. \<not> isLeadIn pt) result))
             else result)
      in sort_by by_order result)"

definition by_score_then_order :: "scored_step \<Rightarrow> scored_step \<Rightarrow> int" where
  "by_score_then_order a b =
     (if score (scored b) \<noteq> score (scored a) then score (scored b) - score (scored a)
      else int (orderIndex a) - int (orderIndex b))"

definition selectedMain_of :: "scored_step list \<Rightarrow> directions_route \<Rightarrow> scored_step list" where
  "selectedMain_of steps route =
     (let target = getTargetCount route;
          candidates = filter (\<lambda>st. score (scored st) > 0 \<and> \<not> exclude (scored st)) steps;
          sorted = sort_by by_score_then_order candidates
      in select_main target sorted [])"

definition selectRehearsalSteps ::
  "scored_step list \<Rightarrow> directions_route \<Rightarrow> selected_step list" where
  "selectRehearsalSteps steps route =
     (let selectedMain = selectedMain_of steps route;
          selected = fold (\<lambda>st m. map_set m (orderIndex st) (as_main st)) selectedMain [];
          selected = fold (add_lead_in steps) selectedMain selected;
          result = sort_by by_order (map_values selected)
      in if int (length result) > MAX_TARGET_POINTS then trimToMaxPoints result else result)"

section \<open>The decision points\<close>

record decision_point =
  dp_index :: nat
  dp_stepIndex :: nat
  dp_legIndex :: nat
  dp_lat :: real
  dp_lng :: real
  dp_heading :: real
  dp_instruction :: string
  dp_type :: string
  dp_typeLabel :: string
  dp_isPrimary :: bool
  dp_isLeadIn :: bool
  dp_isDecisionPoint :: bool
  dp_commitmentLevel :: string
  dp_score :: int
  dp_reasons :: "string list"
  dp_distanceMeters :: int
  dp_distance :: string
  dp_maneuver :: "string option"
  dp_dwellSeconds :: "real option"

definition formatTypeLabel :: "string \<Rightarrow> string" where
  "formatTypeLabel t =
     (case map_of
        [(''roundabout'', ''Roundabout''),
         (''merge'', ''Merge''),
         (''fork'', ''Fork / Lane Split''),
         (''sharp-turn'', ''Sharp Turn''),
         (''uturn'', ''U-Turn''),
         (''complex'', ''Tricky Junction'')] t of
        Some l \<Rightarrow> l
      | None \<Rightarrow> ''Junction'')"

definition getCommitmentLevel :: "selected_step \<Rightarrow> string" where
  "getCommitmentLevel st =
     (let rs = reasons (scored st);
          hasLaneCommitment = (''lane-commitment'' \<in> set rs);
          hasShortWindow = (''short-window'' \<in> set rs);
          hasRoundaboutExit = (''roundabout-exit'' \<in> set rs)
      in if (hasLaneCommitment \<and> hasShortWindow) \<or> (hasRoundaboutExit \<and> hasLaneCommitment)
         then ''high''
         else if hasLaneCommitment \<or> hasShortWindow \<or> hasRoundaboutExit then ''medium''
         else ''low'')"

definition to_decision_point :: "selected_step \<Rightarrow> nat \<Rightarrow> decision_point" where
  "to_decision_point st idx =
     \<lparr>dp_index = idx,
      dp_stepIndex = stepIndex st,
      dp_legIndex = legIndex st,
      dp_lat = lat st,
      dp_lng = lng st,
      dp_heading = heading st,
      dp_instruction = instruction st,
      dp_type = jtype (scored st),
      dp_typeLabel = formatTypeLabel (jtype (scored st)),
      dp_isPrimary = isPrimary (scored st),
      dp_isLeadIn = isLeadIn st,
      dp_isDecisionPoint = (score (scored st) \<ge> DECISION_SCORE_THRESHOLD),
      dp_commitmentLevel = getCommitmentLevel st,
      dp_score = score (scored st),
      dp_reasons = reasons (scored st),
      dp_distanceMeters = distanceMeters st,
      dp_distance = distanceText st,
      dp_maneuver = entry_maneuver st,
      dp_dwellSeconds = None\<rparr>"

text \<open>
  The steps \<open>analyze\<close> selects for a route, before they are turned into decision
  points; \<open>analyze\<close> maps them one to one, in order.
\<close>

definition selected_steps_of ::
  "environment \<Rightarrow> directions_route \<Rightarrow> error + selected_step list" where
  "selected_steps_of env route =
     (case flattenSteps env route of
        Inl e \<Rightarrow> Inl e
      | Inr flatSteps \<Rightarrow> Inr (selectRehearsalSteps (scoreSteps flatSteps) route))"

definition analyze :: "environment \<Rightarrow> directions_result option \<Rightarrow> error + decision_point list" where
  "analyze env result =
     (case result of
        None \<Rightarrow> Inr []
      | Some res \<Rightarrow>
          (case routes res of
             None \<Rightarrow> Inr []
           | Some [] \<Rightarrow> Inr []
           | Some (route # _) \<Rightarrow>
               (case selected_steps_of env route of
                  Inl e \<Rightarrow> Inl e
                | Inr selectedSteps \<Rightarrow>
                    Inr (map (\<lambda>idx. to_decision_point (selectedSteps ! idx) idx)
                             [0..<length selectedSteps]))))"

section \<open>The rehearsal player\<close>

text \<open>
  The module state of \<open>RehearsalPlayer\<close> together with the part of the world it acts on:
  the clock read by \<open>Date.now()\<close> (milliseconds, constant during one call), the pending
  timeouts (handle and delay; handles are positive, so a stored handle is truthy), the
  states handed to the update callback, and the array of decision points. That array
  is the caller's: \<open>init\<close> stores a reference to it, the player writes \<open>dwellSeconds\<close>
  into its elements, and \<open>destroy\<close> rebinds \<open>points\<close> to a fresh empty array without
  touching it. \<open>points_bound\<close> tells whether \<open>points\<close> refers to \<open>point_array\<close>.
  \<open>onUpdate\<close> tells whether a callback is registered; calling it appends the state it
  is given to \<open>updates\<close>.
\<close>

record panorama_view =
  pano_lat :: real
  pano_lng :: real
  pano_heading :: real

record player_state =
  ps_currentIndex :: nat
  ps_total :: nat
  ps_point :: "decision_point option"
  ps_isPlaying :: bool
  ps_speed :: real
  ps_progress :: real
  ps_isFirst :: bool
  ps_isLast :: bool

record player =
  panorama :: "panorama_view option"
  point_array :: "decision_point list"
  points_bound :: bool
  currentIndex :: nat
  isPlaying :: bool
  playTimer :: "nat option"
  speed :: real
  onUpdate :: bool
  lastShownAt :: "int option"
  clock :: int
  timers :: "(nat \<times> real) list"
  next_timer :: nat
  updates :: "player_state list"

definition BASE_DWELL :: real where "BASE_DWELL = 5000"
definition DECISION_DWELL_MULTIPLIER :: real where "DECISION_DWELL_MULTIPLIER = 1.6"

definition points :: "player \<Rightarrow> decision_point list" where
  "points st = (if points_bound st then point_array st else [])"

definition initial_player :: "int \<Rightarrow> player" where
  "initial_player now =
     \<lparr>panorama = None, point_array = [], points_bound = False, currentIndex = 0,
      isPlaying = False, playTimer = None, speed = 1, onUpdate = False, lastShownAt = None,
      clock = now, timers = [], next_timer = 1, updates = []\<rparr>"

definition clearTimeout :: "nat \<Rightarrow> player \<Rightarrow> player" where
  "clearTimeout handle st = st\<lparr>timers := filter (\<lambda>t. fst t \<noteq> handle) (timers st)\<rparr>"

definition setTimeout :: "real \<Rightarrow> player \<Rightarrow> player" where
  "setTimeout delay st =
     st\<lparr>timers := timers st @ [(next_timer st, delay)],
        playTimer := Some (next_timer st),
        next_timer := next_timer st + 1\<rparr>"

definition getState :: "player \<Rightarrow> player_state" where
  "getState st =
     \<lparr>ps_currentIndex = currentIndex st,
      ps_total = length (points st),
      ps_point =
        (if currentIndex st < length (points st) then Some (points st ! currentIndex st)
         else None),
      ps_isPlaying = isPlaying st,
      ps_speed = speed st,
      ps_progress =
        (if length (points st) > 0
         then (real (currentIndex st) + 1) / real (length (points st)) * 100 else 0),
      ps_isFirst = (currentIndex st = 0),
      ps_isLast = (int (currentIndex st) = int (length (points st)) - 1)\<rparr>"

definition emitUpdate :: "player \<Rightarrow> player" where
  "emitUpdate st = (if onUpdate st then st\<lparr>updates := updates st @ [getState st]\<rparr> else st)"

definition recordCurrentDwell :: "player \<Rightarrow> player" where
  "recordCurrentDwell st =
     (let st1 =
        (case lastShownAt st of
           None \<Rightarrow> st
         | Some shown \<Rightarrow>
             if currentIndex st < length (points st) then
               (let dwellSeconds = real_of_int (clock st - shown) / 1000 in
                st\<lparr>point_array :=
                     (point_array st)[currentIndex st :=
                        (point_array st ! currentIndex st)\<lparr>dp_dwellSeconds := Some dwellSeconds\<rparr>]\<rparr>)
             else st)
      in st1\<lparr>lastShownAt := None\<rparr>)"

definition pause :: "player \<Rightarrow> player" where
  "pause st =
     (let st1 = st\<lparr>isPlaying := False\<rparr>;
          st2 = (case playTimer st1 of
                   None \<Rightarrow> st1
                 | Some handle \<Rightarrow> (clearTimeout handle st1)\<lparr>playTimer := None\<rparr>)
      in emitUpdate st2)"

text \<open>\<open>showPoint\<close> calls methods of \<open>panorama\<close>, which throws while it is \<open>null\<close>.\<close>

definition showPoint :: "int \<Rightarrow> player \<Rightarrow> error + player" where
  "showPoint idx st =
     (if idx < 0 \<or> idx \<ge> int (length (points st)) then Inr st
      else
        let st1 = recordCurrentDwell st;
            st2 = st1\<lparr>currentIndex := nat idx\<rparr>;
            pt = points st2 ! nat idx
        in (case panorama st2 of
              None \<Rightarrow> Inl TypeError
            | Some _ \<Rightarrow>
                Inr (emitUpdate
                       (st2\<lparr>panorama :=
                              Some \<lparr>pano_lat = dp_lat pt, pano_lng = dp_lng pt,
                                    pano_heading = dp_heading pt\<rparr>,
                            lastShownAt := Some (clock st2)\<rparr>))))"

text \<open>
  \<open>init\<close> reads \<open>points[0].lat\<close> for the panorama's options, which throws for an empty
  array. The container element plays no part in the model.
\<close>

definition init :: "decision_point list \<Rightarrow> bool \<Rightarrow> player \<Rightarrow> error + player" where
  "init decisionPoints updateCallback st =
     (let st1 = st\<lparr>point_array := decisionPoints, points_bound := True, currentIndex := 0,
                  isPlaying := False, speed := 1, onUpdate := updateCallback,
                  lastShownAt := None\<rparr>;
          st2 = (case playTimer st1 of None \<Rightarrow> st1 | Some handle \<Rightarrow> clearTimeout handle st1)
      in (case points st2 of
            [] \<Rightarrow> Inl TypeError
          | p0 # _ \<Rightarrow>
              showPoint 0
                (st2\<lparr>panorama :=
                       Some \<lparr>pano_lat = dp_lat p0, pano_lng = dp_lng p0,
                             pano_heading = dp_heading p0\<rparr>\<rparr>)))"

text \<open>
  \<open>next\<close> (here \<open>next_op\<close>) and \<open>scheduleNext\<close> call each other: with the skip speed
  \<open>0\<close> a playing sequencer runs through to the last point within one call. Every call
  moves the current index up or is the last one, so the recursion ends.
\<close>

function next_op :: "player \<Rightarrow> error + player"
  and scheduleNext :: "player \<Rightarrow> error + player" where
  "next_op st =
     (if int (currentIndex st) < int (length (points st)) - 1 then
        (case showPoint (int (currentIndex st) + 1) st of
           Inl e \<Rightarrow> Inl e
         | Inr st1 \<Rightarrow> if isPlaying st1 then scheduleNext st1 else Inr st1)
      else Inr (pause (recordCurrentDwell st)))"
| "scheduleNext st =
     (let st1 = (case playTimer st of None \<Rightarrow> st | Some handle \<Rightarrow> clearTimeout handle st) in
      if \<not> isPlaying st1 then Inr st1
      else if int (currentIndex st1) \<ge> int (length (points st1)) - 1
      then Inr (pause (recordCurrentDwell st1))
      else if speed st1 = 0 then next_op st1
      else
        let delay = BASE_DWELL / speed st1;
            delay =
              (if currentIndex st1 < length (points st1) \<and>
                  dp_isDecisionPoint (points st1 ! currentIndex st1)
               then delay * DECISION_DWELL_MULTIPLIER else delay)
        in Inr (setTimeout delay st1))"
  by pat_completeness auto

lemma points_recordCurrentDwell:
  "length (points (recordCurrentDwell st)) = length (points st)"
  by (simp add: recordCurrentDwell_def points_def Let_def split: option.splits)

lemma showPoint_measure:
  assumes "showPoint idx st = Inr st1" and "0 \<le> idx" and "idx < int (length (points st))"
  shows "currentIndex st1 = nat idx \<and> length (points st1) = length (points st)"
  using assms
  by (auto simp: showPoint_def Let_def emitUpdate_def points_def recordCurrentDwell_def
           split: option.splits if_splits)

lemma clearTimeout_same:
  "points (clearTimeout h st) = points st" "currentIndex (clearTimeout h st) = currentIndex st"
  by (simp_all add: clearTimeout_def points_def)

termination next_op
proof (relation "measure (\<lambda>x. case x of
          Inl st \<Rightarrow> 2 * (length (points st) - currentIndex st)
        | Inr st \<Rightarrow> 2 * (length (points st) - currentIndex st) + 1)")
  show "wf (measure (\<lambda>x. case x of
          Inl st \<Rightarrow> 2 * (length (points st) - currentIndex st)
        | Inr st \<Rightarrow> 2 * (length (points st) - currentIndex st) + 1))"
    by simp
next
  fix st st1
  assume a: "int (currentIndex st) < int (length (points st)) - 1"
    and b: "showPoint (int (currentIndex st) + 1) st = Inr st1"
  have "currentIndex st1 = nat (int (currentIndex st) + 1) \<and> length (points st1) = length (points st)"
    using showPoint_measure [OF b] a by simp
  then show "(Inr st1, Inl st) \<in> measure (\<lambda>x. case x of
          Inl st \<Rightarrow> 2 * (length (points st) - currentIndex st)
        | Inr st \<Rightarrow> 2 * (length (points st) - currentIndex st) + 1)"
    using a by simp
next
  fix st st1
  assume "st1 = (case playTimer st of None \<Rightarrow> st | Some handle \<Rightarrow> clearTimeout handle st)"
  then have "points st1 = points st \<and> currentIndex st1 = currentIndex st"
    by (simp add: clearTimeout_same split: option.splits)
  then show "(Inl st1, Inr st) \<in> measure (\<lambda>x. case x of
          Inl st \<Rightarrow> 2 * (length (points st) - currentIndex st)
        | Inr st \<Rightarrow> 2 * (length (points st) - currentIndex st) + 1)"
    by simp
qed

definition play :: "player \<Rightarrow> error + player" where
  "play st =
     (if length (points st) = 0 then Inr st
      else scheduleNext (emitUpdate (st\<lparr>isPlaying := True\<rparr>)))"

definition togglePlay :: "player \<Rightarrow> error + player" where
  "togglePlay st = (if isPlaying st then Inr (pause st) else play st)"

definition prev :: "player \<Rightarrow> error + player" where
  "prev st =
     (if currentIndex st > 0 then
        (case showPoint (int (currentIndex st) - 1) st of
           Inl e \<Rightarrow> Inl e
         | Inr st1 \<Rightarrow> if isPlaying st1 then scheduleNext st1 else Inr st1)
      else Inr st)"

definition setSpeed :: "real \<Rightarrow> player \<Rightarrow> error + player" where
  "setSpeed newSpeed st =
     (let st1 = emitUpdate (st\<lparr>speed := newSpeed\<rparr>) in
      if isPlaying st1 \<and> speed st1 = 0 then
        next_op (case playTimer st1 of None \<Rightarrow> st1 | Some handle \<Rightarrow> clearTimeout handle st1)
      else Inr st1)"

definition goTo :: "int \<Rightarrow> player \<Rightarrow> error + player" where
  "goTo idx st =
     (case showPoint idx st of
        Inl e \<Rightarrow> Inl e
      | Inr st1 \<Rightarrow> if isPlaying st1 then scheduleNext st1 else Inr st1)"

definition destroy :: "player \<Rightarrow> player" where
  "destroy st =
     (recordCurrentDwell (pause st))\<lparr>panorama := None, points_bound := False, lastShownAt := None\<rparr>"

text \<open>The callback of a pending timeout runs \<open>next()\<close>; a cancelled timeout never fires.\<close>

definition timer_fires :: "nat \<Rightarrow> player \<Rightarrow> error + player" where
  "timer_fires handle st =
     (if handle \<in> set (map fst (timers st))
      then next_op (st\<lparr>timers := filter (\<lambda>t. fst t \<noteq> handle) (timers st)\<rparr>)
      else Inr st)"

definition tick :: "int \<Rightarrow> player \<Rightarrow> player" where
  "tick ms st = st\<lparr>clock := clock st + ms\<rparr>"

text \<open>The pending timeouts once the one held in \<open>playTimer\<close> is cancelled.\<close>

definition cancel_play_timer :: "player \<Rightarrow> (nat \<times> real) list" where
  "cancel_play_timer st = filter (\<lambda>t. Some (fst t) \<noteq> playTimer st) (timers st)"

text \<open>Running a sequence of calls, stopping at the first one that throws.\<close>

fun run :: "(player \<Rightarrow> error + player) list \<Rightarrow> player \<Rightarrow> error + player" where
  "run [] st = Inr st"
| "run (f # fs) st = (case f st of Inl e \<Rightarrow> Inl e | Inr st1 \<Rightarrow> run fs st1)"

subsection \<open>A sample rehearsal\<close>

definition demo_point :: "nat \<Rightarrow> bool \<Rightarrow> decision_point" where
  "demo_point i decisive =
     \<lparr>dp_index = i, dp_stepIndex = i, dp_legIndex = 0, dp_lat = 0, dp_lng = real i,
      dp_heading = 0, dp_instruction = ''merge'', dp_type = ''merge'',
      dp_typeLabel = ''Merge'', dp_isPrimary = False, dp_isLeadIn = False,
      dp_isDecisionPoint = decisive, dp_commitmentLevel = ''medium'',
      dp_score = (if decisive then 12 else 6), dp_reasons = [''lane-commitment''],
      dp_distanceMeters = 100, dp_distance = ''100 m'', dp_maneuver = Some ''merge'',
      dp_dwellSeconds = None\<rparr>"

definition demo_points :: "decision_point list" where
  "demo_points = [demo_point 0 True, demo_point 1 False, demo_point 2 False]"

definition demo_playing :: player where
  "demo_playing =
     (case run [init demo_points False, play, Inr \<circ> tick 1000] (initial_player 0) of
        Inr st \<Rightarrow> st
      | Inl _ \<Rightarrow> initial_player 0)"

section \<open>Sample routes and the invariants of the selection\<close>

subsection \<open>Invariants of the selection\<close>

definition spaced :: "scored_step list \<Rightarrow> bool" where
  "spaced sel =
     (\<forall>a \<in> set sel. \<forall>b \<in> set sel. orderIndex a \<noteq> orderIndex b \<longrightarrow>
        SPACING_METERS \<le> haversineDistance (lat a) (lng a) (lat b) (lng b))"

definition main_map :: "scored_step list \<Rightarrow> (nat \<times> selected_step) list" where
  "main_map selectedMain = fold (\<lambda>st m. map_set m (orderIndex st) (as_main st)) selectedMain []"

text \<open>
  The invariant of the map while lead-in steps are added: keys are distinct and are the
  order indexes of their values; a value that is not a lead-in is a main step; a lead-in
  sits just before a main step; every main step has an entry that is not a lead-in.
\<close>

definition selected_inv :: "scored_step list \<Rightarrow> (nat \<times> selected_step) list \<Rightarrow> bool" where
  "selected_inv sm m =
     (distinct (map fst m) \<and>
      (\<forall>p \<in> set m. orderIndex (snd p) = fst p \<and>
          (if isLeadIn (snd p) then \<exists>s \<in> set sm. Suc (fst p) = orderIndex s
           else \<exists>s \<in> set sm. snd p = as_main s)) \<and>
      (\<forall>s \<in> set sm. \<exists>p \<in> set m. fst p = orderIndex s \<and> \<not> isLeadIn (snd p)))"

definition indexed :: "'a flat_step_scheme list \<Rightarrow> bool" where
  "indexed steps = (\<forall>i < length steps. orderIndex (steps ! i) = i)"

definition counted :: "flat_step list \<times> nat \<Rightarrow> bool" where
  "counted acc = (snd acc = length (fst acc) \<and> indexed (fst acc))"

subsection \<open>A sample route\<close>

text \<open>
  One leg of 70 km with three steps: a plain step of 500 m, a merge at the same place and
  a second merge on the other side of the globe, 100 m long. No geometry library is
  loaded and the instructions carry no markup.
\<close>

definition demo_env :: environment where
  "demo_env = \<lparr>textContent = (\<lambda>s. s), innerText = (\<lambda>s. s), google_computeHeading = None\<rparr>"

text \<open>
  The same page once the maps geometry library is loaded: its \<open>computeHeading\<close> gives
  the bearing of two coordinates in degrees and throws when one of them is missing.
\<close>

definition library_env :: environment where
  "library_env =
     \<lparr>textContent = (\<lambda>s. s), innerText = (\<lambda>s. s),
      google_computeHeading =
        Some (\<lambda>from to.
          case from of None \<Rightarrow> Inl TypeError
          | Some a \<Rightarrow>
             (case to of None \<Rightarrow> Inl TypeError
              | Some b \<Rightarrow>
                 Inr (toDeg (atan2
                        (sin (toRad (ll_lng b - ll_lng a)) * cos (toRad (ll_lat b)))
                        (cos (toRad (ll_lat a)) * sin (toRad (ll_lat b)) -
                         sin (toRad (ll_lat a)) * cos (toRad (ll_lat b)) *
                           cos (toRad (ll_lng b - ll_lng a)))))))\<rparr>"

definition demo_step :: "real \<Rightarrow> string \<Rightarrow> int \<Rightarrow> string option \<Rightarrow> directions_step" where
  "demo_step x instr meters man =
     \<lparr>start_location = Some \<lparr>ll_lat = 0, ll_lng = x\<rparr>,
      end_location = Some \<lparr>ll_lat = 0, ll_lng = x\<rparr>,
      instructions = Some instr,
      distance = Some \<lparr>dist_value = meters, dist_text = ''m''\<rparr>,
      maneuver = man\<rparr>"

definition demo_route :: directions_route where
  "demo_route =
     \<lparr>legs = [\<lparr>leg_distance = Some 70000,
               leg_steps = [demo_step 0 ''Go'' 500 None,
                            demo_step 0 ''Merge'' 300 (Some ''merge''),
                            demo_step 180 ''Merge'' 100 (Some ''merge'')]\<rparr>]\<rparr>"

definition demo_entry :: "nat \<Rightarrow> real \<Rightarrow> string \<Rightarrow> int \<Rightarrow> string option \<Rightarrow> flat_step" where
  "demo_entry i x instr meters man =
     \<lparr>orderIndex = i, legIndex = 0, stepIndex = i, step = demo_step x instr meters man,
      heading = 0, lat = 0, lng = x, instructionHtml = instr, instruction = instr,
      distanceMeters = meters, distanceText = ''m'', entry_maneuver = man\<rparr>"

definition demo_flat :: "flat_step list" where
  "demo_flat = [demo_entry 0 0 ''Go'' 500 None,
                demo_entry 1 0 ''Merge'' 300 (Some ''merge''),
                demo_entry 2 180 ''Merge'' 100 (Some ''merge'')]"

definition demo_result :: directions_result where
  "demo_result = \<lparr>routes = Some [demo_route]\<rparr>"

definition demo_lead :: scored_step where
  "demo_lead =
     flat_step.extend (demo_entry 0 0 ''Go'' 500 None)
       (scored_step.fields
          \<lparr>score = 0, reasons = [], exclude = True, jtype = ''complex'', isPrimary = False\<rparr>)"

definition demo_first :: scored_step where
  "demo_first =
     flat_step.extend (demo_entry 1 0 ''Merge'' 300 (Some ''merge''))
       (scored_step.fields
          \<lparr>score = 12, reasons = [''lane-commitment'', ''short-window''], exclude = False,
           jtype = ''merge'', isPrimary = False\<rparr>)"

definition demo_second :: scored_step where
  "demo_second =
     flat_step.extend (demo_entry 2 180 ''Merge'' 100 (Some ''merge''))
       (scored_step.fields
          \<lparr>score = 6, reasons = [''lane-commitment''], exclude = False, jtype = ''merge'',
           isPrimary = False\<rparr>)"

definition demo_scored :: "scored_step list" where
  "demo_scored = [demo_lead, demo_first, demo_second]"

definition demo_selected :: "selected_step list" where
  "demo_selected = [as_lead_in demo_lead, as_main demo_first, as_main demo_second]"

definition demo_decision_points :: "decision_point list" where
  "demo_decision_points =
     [to_decision_point (as_lead_in demo_lead) 0, to_decision_point (as_main demo_first) 1,
      to_decision_point (as_main demo_second) 2]"

subsection \<open>The roundabout scenario\<close>

definition roundabout_text :: string where
  "roundabout_text = ''At the roundabout, take the 2nd exit''"

definition roundabout_entry :: flat_step where
  "roundabout_entry =
     \<lparr>orderIndex = 0, legIndex = 0, stepIndex = 0,
      step = \<lparr>start_location = Some \<lparr>ll_lat = 0, ll_lng = 0\<rparr>,
              end_location = Some \<lparr>ll_lat = 0, ll_lng = 0\<rparr>,
              instructions = Some roundabout_text,
              distance = Some \<lparr>dist_value = 80, dist_text = ''80 m''\<rparr>,
              maneuver = Some ''roundabout-right''\<rparr>,
      heading = 0, lat = 0, lng = 0,
      instructionHtml = roundabout_text, instruction = roundabout_text,
      distanceMeters = 80, distanceText = ''80 m'',
      entry_maneuver = Some ''roundabout-right''\<rparr>"

subsection \<open>Steps with missing fields\<close>

definition located :: "directions_step \<Rightarrow> bool" where
  "located st = (start_location st \<noteq> None \<and> end_location st \<noteq> None)"

definition bare_step :: "string option \<Rightarrow> directions_step" where
  "bare_step man =
     \<lparr>start_location = Some \<lparr>ll_lat = 0, ll_lng = 0\<rparr>,
      end_location = Some \<lparr>ll_lat = 0, ll_lng = 0\<rparr>,
      instructions = None, distance = None, maneuver = man\<rparr>"

definition bare_entry :: "string option \<Rightarrow> flat_step" where
  "bare_entry man =
     \<lparr>orderIndex = 0, legIndex = 0, stepIndex = 0, step = bare_step man, heading = 0,
      lat = 0, lng = 0, instructionHtml = [], instruction = [], distanceMeters = 0,
      distanceText = [], entry_maneuver = man\<rparr>"

definition unlocated_step :: directions_step where
  "unlocated_step =
     \<lparr>start_location = None, end_location = None, instructions = Some ''Merge'',
      distance = Some \<lparr>dist_value = 100, dist_text = ''100 m''\<rparr>, maneuver = Some ''merge''\<rparr>"

definition route_of :: "directions_step list \<Rightarrow> directions_route" where
  "route_of sts = \<lparr>legs = [\<lparr>leg_distance = None, leg_steps = sts\<rparr>]\<rparr>"

section \<open>Properties of the route analyzer\<close>

subsection \<open>Evaluating the patterns\<close>

lemma lower_char_bits [code]:
  "lower_char (Char b0 b1 b2 b3 b4 b5 b6 b7) =
     (if \<not> b7 \<and> b6 \<and> \<not> b5 \<and> (b0 \<or> b1 \<or> b2 \<or> b3 \<or> b4) \<and>
         \<not> (b4 \<and> b3 \<and> (b2 \<or> (b1 \<and> b0)))
      then Char b0 b1 b2 b3 b4 True b6 b7 else Char b0 b1 b2 b3 b4 b5 b6 b7)"
  unfolding lower_char_def zip.simps list.case map_of.simps fst_conv snd_conv
  by (cases b4; cases b3; cases b2; cases b1; cases b0; simp)

subsection \<open>Records, sorting and distance\<close>

lemma as_main_fields:
  "isLeadIn (as_main s) = False" "orderIndex (as_main s) = orderIndex s"
  "lat (as_main s) = lat s" "lng (as_main s) = lng s" "scored (as_main s) = scored s"
  by (simp_all add: as_main_def scored_step.defs selected_step.defs)

lemma as_lead_in_fields:
  "isLeadIn (as_lead_in s) = True" "orderIndex (as_lead_in s) = orderIndex s"
  "lat (as_lead_in s) = lat s" "lng (as_lead_in s) = lng s"
  by (simp_all add: as_lead_in_def scored_step.defs selected_step.defs)

lemma scoreSteps_nth:
  "length (scoreSteps steps) = length steps"
  "i < length steps \<Longrightarrow> orderIndex (scoreSteps steps ! i) = orderIndex (steps ! i)"
  by (simp_all add: scoreSteps_def Let_def flat_step.defs scored_step.defs)

lemma mset_insert_by: "mset (insert_by cmp x ys) = add_mset x (mset ys)"
  by (induction ys) simp_all

lemma mset_sort_by: "mset (sort_by cmp xs) = mset xs"
  by (induction xs) (simp_all add: sort_by_def mset_insert_by)

lemma set_sort_by: "set (sort_by cmp xs) = set xs"
  using mset_sort_by [of cmp xs] by (metis set_mset_mset)

lemma length_sort_by: "length (sort_by cmp xs) = length xs"
  using mset_sort_by [of cmp xs] by (metis size_mset)

lemma distinct_map_sort_by: "distinct (map f (sort_by cmp xs)) = distinct (map f xs)"
proof -
  have "mset (map f (sort_by cmp xs)) = mset (map f xs)"
    by (simp add: mset_sort_by)
  then show ?thesis by (rule mset_eq_imp_distinct_iff)
qed

lemma haversine_sym:
  "haversineDistance lat1 lng1 lat2 lng2 = haversineDistance lat2 lng2 lat1 lng1"
proof -
  have s: "(sin (toRad (a - b) / 2))\<^sup>2 = (sin (toRad (b - a) / 2))\<^sup>2" for a b :: real
  proof -
    have "toRad (a - b) / 2 = - (toRad (b - a) / 2)"
      by (simp add: toRad_def field_simps)
    then show ?thesis by (simp add: power2_eq_square)
  qed
  show ?thesis
    unfolding haversineDistance_def Let_def
    by (simp add: s [of lat2 lat1] s [of lng2 lng1] mult.commute)
qed

subsection \<open>The selection keeps its invariants\<close>

lemma spaced_snoc:
  assumes "spaced sel" "\<not> isTooClose c sel SPACING_METERS"
  shows "spaced (sel @ [c])"
proof -
  have far: "\<forall>e \<in> set sel. SPACING_METERS \<le> haversineDistance (lat c) (lng c) (lat e) (lng e)"
    using assms(2) by (auto simp: isTooClose_def list_ex_iff not_less)
  then have far': "\<forall>e \<in> set sel. SPACING_METERS \<le> haversineDistance (lat e) (lng e) (lat c) (lng c)"
    by (simp add: haversine_sym)
  show ?thesis
    using assms(1) far far' by (auto simp: spaced_def)
qed

lemma spaced_select_main: "spaced sel \<Longrightarrow> spaced (select_main target cs sel)"
  by (induction target cs sel rule: select_main.induct) (simp_all add: spaced_snoc)

lemma set_select_main: "set (select_main target cs sel) \<subseteq> set cs \<union> set sel"
  by (induction target cs sel rule: select_main.induct) auto

lemma spaced_selectedMain: "spaced (selectedMain_of steps route)"
proof -
  have "spaced []" by (simp add: spaced_def)
  then show ?thesis by (simp add: selectedMain_of_def Let_def spaced_select_main)
qed

lemma selectedMain_subset: "set (selectedMain_of steps route) \<subseteq> set steps"
  using set_select_main [of "getTargetCount route"
      "sort_by by_score_then_order (filter (\<lambda>st. score (scored st) > 0 \<and> \<not> exclude (scored st)) steps)" "[]"]
  by (auto simp: selectedMain_of_def Let_def set_sort_by)

text \<open>The map of selected steps.\<close>

lemma map_set_keys: "set (map fst (map_set m k v)) = insert k (set (map fst m))"
  by (induction m) auto

lemma map_set_distinct: "distinct (map fst m) \<Longrightarrow> distinct (map fst (map_set m k v))"
proof (induction m)
  case Nil
  then show ?case by simp
next
  case (Cons p ps)
  then show ?case using map_set_keys [of ps k v] by auto
qed

lemma map_set_entries: "set (map_set m k v) \<subseteq> insert (k, v) (set m)"
  by (induction m) auto

lemma map_set_absent: "k \<notin> set (map fst m) \<Longrightarrow> map_set m k v = m @ [(k, v)]"
  by (induction m) auto

lemma fold_main_inv:
  assumes "distinct (map fst m)" "\<forall>p \<in> set m. \<exists>s \<in> S. p = (orderIndex s, as_main s)" "set xs \<subseteq> S"
  shows "distinct (map fst (fold (\<lambda>st m. map_set m (orderIndex st) (as_main st)) xs m)) \<and>
         (\<forall>p \<in> set (fold (\<lambda>st m. map_set m (orderIndex st) (as_main st)) xs m).
            \<exists>s \<in> S. p = (orderIndex s, as_main s)) \<and>
         set (map fst m) \<union> orderIndex ` set xs \<subseteq>
           set (map fst (fold (\<lambda>st m. map_set m (orderIndex st) (as_main st)) xs m))"
  using assms
proof (induction xs arbitrary: m)
  case Nil
  then show ?case by simp
next
  case (Cons x xs)
  let ?m = "map_set m (orderIndex x) (as_main x)"
  have d: "distinct (map fst ?m)" using Cons.prems(1) by (rule map_set_distinct)
  have e: "\<forall>p \<in> set ?m. \<exists>s \<in> S. p = (orderIndex s, as_main s)"
    using map_set_entries [of m "orderIndex x" "as_main x"] Cons.prems(2,3) by auto
  have "set xs \<subseteq> S" using Cons.prems(3) by simp
  from Cons.IH [OF d e this] map_set_keys [of m "orderIndex x" "as_main x"]
  show ?case by auto
qed

lemma main_map_inv:
  "distinct (map fst (main_map sm))"
  "\<forall>p \<in> set (main_map sm). \<exists>s \<in> set sm. p = (orderIndex s, as_main s)"
  "orderIndex ` set sm \<subseteq> set (map fst (main_map sm))"
  using fold_main_inv [of "[]" "set sm" sm] by (auto simp: main_map_def)

lemma selected_inv_main: "selected_inv sm (main_map sm)"
proof -
  have "\<forall>s \<in> set sm. \<exists>p \<in> set (main_map sm). fst p = orderIndex s \<and> \<not> isLeadIn (snd p)"
  proof
    fix s assume "s \<in> set sm"
    then have "orderIndex s \<in> set (map fst (main_map sm))" using main_map_inv(3) by auto
    then obtain p where p: "p \<in> set (main_map sm)" "fst p = orderIndex s" by auto
    then obtain s' where "s' \<in> set sm" "p = (orderIndex s', as_main s')"
      using main_map_inv(2) by blast
    then have "\<not> isLeadIn (snd p)" by (simp add: as_main_fields)
    then show "\<exists>p \<in> set (main_map sm). fst p = orderIndex s \<and> \<not> isLeadIn (snd p)"
      using p by blast
  qed
  moreover have "\<forall>p \<in> set (main_map sm). orderIndex (snd p) = fst p \<and>
          (if isLeadIn (snd p) then \<exists>s \<in> set sm. Suc (fst p) = orderIndex s
           else \<exists>s \<in> set sm. snd p = as_main s)"
    using main_map_inv(2) [of sm] by (fastforce simp: as_main_fields)
  ultimately show ?thesis using main_map_inv(1) [of sm] unfolding selected_inv_def by blast
qed

lemma getLeadInStep_index:
  assumes "indexed steps" "getLeadInStep st steps = Some leadIn"
  shows "Suc (orderIndex leadIn) = orderIndex st"
  using assms
  by (auto simp: getLeadInStep_def indexed_def Let_def split: if_splits)

lemma add_lead_in_inv:
  assumes "indexed steps" "selected_inv sm m" "st \<in> set sm"
  shows "selected_inv sm (add_lead_in steps st m)"
proof (cases "getLeadInStep st steps")
  case None
  then show ?thesis using assms(2) by (simp add: add_lead_in_def)
next
  case (Some leadIn)
  show ?thesis
  proof (cases "map_has m (orderIndex leadIn)")
    case True
    then show ?thesis using assms(2) Some by (simp add: add_lead_in_def)
  next
    case False
    then have absent: "orderIndex leadIn \<notin> set (map fst m)" by (simp add: map_has_def)
    have eq: "add_lead_in steps st m = m @ [(orderIndex leadIn, as_lead_in leadIn)]"
      using Some False absent by (simp add: add_lead_in_def map_set_absent)
    have idx: "Suc (orderIndex leadIn) = orderIndex st"
      using getLeadInStep_index [OF assms(1) Some] .
    show ?thesis
      unfolding eq selected_inv_def
      using assms(2,3) absent idx
      by (auto simp: selected_inv_def as_lead_in_fields)
  qed
qed

lemma fold_lead_in_inv:
  assumes "indexed steps" "selected_inv sm m" "set xs \<subseteq> set sm"
  shows "selected_inv sm (fold (add_lead_in steps) xs m)"
  using assms
proof (induction xs arbitrary: m)
  case Nil
  then show ?case by simp
next
  case (Cons x xs)
  then show ?case using add_lead_in_inv [of steps sm m x] by simp
qed

lemma remove_while_over_subset: "set (remove_while_over r q) \<subseteq> set r"
  by (induction r q rule: remove_while_over.induct) auto

lemma remove_while_over_keeps:
  assumes "\<forall>x \<in> set q. \<forall>y \<in> set r. orderIndex y = orderIndex x \<longrightarrow> isLeadIn y"
    and "y \<in> set r" "\<not> isLeadIn y"
  shows "y \<in> set (remove_while_over r q)"
  using assms
proof (induction r q rule: remove_while_over.induct)
  case (1 result)
  then show ?case by simp
next
  case (2 result toRemove queue)
  show ?case
  proof (cases "int (length result) > MAX_TARGET_POINTS")
    case True
    let ?r = "filter (\<lambda>pt. orderIndex pt \<noteq> orderIndex toRemove) result"
    have "orderIndex y \<noteq> orderIndex toRemove" using "2.prems" by auto
    then have "y \<in> set ?r" using "2.prems"(2) by simp
    moreover have "\<forall>x \<in> set queue. \<forall>y \<in> set ?r. orderIndex y = orderIndex x \<longrightarrow> isLeadIn y"
      using "2.prems"(1) by simp
    ultimately have "y \<in> set (remove_while_over ?r queue)"
      using "2.IH" [OF True] "2.prems"(3) by blast
    then show ?thesis using True by simp
  next
    case False
    then show ?thesis using "2.prems"(2) by simp
  qed
qed

lemma remove_while_over_exhaust:
  assumes "int (length (remove_while_over r q)) > MAX_TARGET_POINTS"
    and "x \<in> set q" "y \<in> set (remove_while_over r q)"
  shows "orderIndex y \<noteq> orderIndex x"
  using assms
proof (induction r q rule: remove_while_over.induct)
  case (1 result)
  then show ?case by simp
next
  case (2 result toRemove queue)
  show ?case
  proof (cases "int (length result) > MAX_TARGET_POINTS")
    case True
    let ?r = "filter (\<lambda>pt. orderIndex pt \<noteq> orderIndex toRemove) result"
    have eq: "remove_while_over result (toRemove # queue) = remove_while_over ?r queue"
      using True by simp
    show ?thesis
    proof (cases "x = toRemove")
      case True
      have "y \<in> set ?r" using "2.prems"(3) remove_while_over_subset [of ?r queue] eq by auto
      then show ?thesis using True by simp
    next
      case False
      then have "x \<in> set queue" using "2.prems"(2) by simp
      then show ?thesis using "2.IH" [OF True] "2.prems"(1,3) eq by simp
    qed
  next
    case False
    then show ?thesis using "2.prems"(1) by simp
  qed
qed

lemma distinct_remove_while_over:
  "distinct (map f r) \<Longrightarrow> distinct (map f (remove_while_over r q))"
  by (induction r q rule: remove_while_over.induct) (simp_all add: distinct_map_filter)

lemma trimToMaxPoints_props:
  assumes "distinct (map orderIndex r)"
  shows "set (trimToMaxPoints r) \<subseteq> set r"
    and "distinct (map orderIndex (trimToMaxPoints r))"
    and "p \<in> set (trimToMaxPoints r) \<Longrightarrow> isLeadIn p \<Longrightarrow> y \<in> set r \<Longrightarrow> \<not> isLeadIn y \<Longrightarrow>
           y \<in> set (trimToMaxPoints r)"
proof -
  define q1 where "q1 = sort_by by_score (filter (\<lambda>pt. isLeadIn pt) r)"
  define r1 where "r1 = remove_while_over r q1"
  define r2 where "r2 = (if int (length r1) > MAX_TARGET_POINTS
             then remove_while_over r1 (sort_by by_score (filter (\<lambda>pt. \<not> isLeadIn pt) r1))
             else r1)"
  have t: "trimToMaxPoints r = sort_by by_order r2"
    by (simp add: trimToMaxPoints_def Let_def q1_def r1_def r2_def)
  have s1: "set r1 \<subseteq> set r" by (simp add: r1_def remove_while_over_subset)
  have s2: "set r2 \<subseteq> set r1" by (simp add: r2_def remove_while_over_subset)
  show "set (trimToMaxPoints r) \<subseteq> set r"
    using s1 s2 by (auto simp: t set_sort_by)
  have "distinct (map orderIndex r1)"
    using assms by (simp add: r1_def distinct_remove_while_over)
  then have "distinct (map orderIndex r2)"
    by (simp add: r2_def distinct_remove_while_over)
  then show "distinct (map orderIndex (trimToMaxPoints r))"
    by (simp add: t distinct_map_sort_by)
  have inj: "inj_on orderIndex (set r)" using assms by (simp add: distinct_map)
  have q1: "set q1 = {x \<in> set r. isLeadIn x}" by (auto simp: q1_def set_sort_by)
  have guard: "\<forall>x \<in> set q1. \<forall>y \<in> set r. orderIndex y = orderIndex x \<longrightarrow> isLeadIn y"
  proof (intro ballI impI)
    fix x y assume "x \<in> set q1" "y \<in> set r" "orderIndex y = orderIndex x"
    then have "y = x" using inj q1 by (auto dest: inj_onD)
    then show "isLeadIn y" using \<open>x \<in> set q1\<close> q1 by simp
  qed
  show "y \<in> set (trimToMaxPoints r)"
    if p: "p \<in> set (trimToMaxPoints r)" "isLeadIn p" and y: "y \<in> set r" "\<not> isLeadIn y"
  proof -
    have y1: "y \<in> set r1"
      unfolding r1_def using guard y by (rule remove_while_over_keeps)
    have p2: "p \<in> set r2" using p(1) by (simp add: t set_sort_by)
    have "\<not> int (length r1) > MAX_TARGET_POINTS"
    proof
      assume over: "int (length r1) > MAX_TARGET_POINTS"
      have "p \<in> set r1" using p2 s2 by auto
      moreover have "p \<in> set q1" using \<open>p \<in> set r1\<close> s1 p(2) q1 by auto
      ultimately have "orderIndex p \<noteq> orderIndex p"
        using remove_while_over_exhaust [of r q1 p p] over by (simp add: r1_def)
      then show False by simp
    qed
    then have "r2 = r1" by (simp add: r2_def)
    then show ?thesis using y1 by (simp add: t set_sort_by)
  qed
qed

lemma selected_invD:
  assumes "selected_inv sm m"
  shows "e \<in> set m \<Longrightarrow> orderIndex (snd e) = fst e"
    and "e \<in> set m \<Longrightarrow> isLeadIn (snd e) \<Longrightarrow> \<exists>s \<in> set sm. Suc (fst e) = orderIndex s"
    and "e \<in> set m \<Longrightarrow> \<not> isLeadIn (snd e) \<Longrightarrow> \<exists>s \<in> set sm. snd e = as_main s"
    and "s \<in> set sm \<Longrightarrow> \<exists>e' \<in> set m. fst e' = orderIndex s \<and> \<not> isLeadIn (snd e')"
    and "distinct (map fst m)"
proof -
  have a: "\<forall>p \<in> set m. orderIndex (snd p) = fst p \<and>
          (if isLeadIn (snd p) then \<exists>s \<in> set sm. Suc (fst p) = orderIndex s
           else \<exists>s \<in> set sm. snd p = as_main s)"
    and b: "\<forall>s \<in> set sm. \<exists>p \<in> set m. fst p = orderIndex s \<and> \<not> isLeadIn (snd p)"
    and c: "distinct (map fst m)"
    using assms unfolding selected_inv_def by blast+
  show "e \<in> set m \<Longrightarrow> orderIndex (snd e) = fst e" using a by blast
  show "e \<in> set m \<Longrightarrow> isLeadIn (snd e) \<Longrightarrow> \<exists>s \<in> set sm. Suc (fst e) = orderIndex s"
    using a by (metis (full_types))
  show "e \<in> set m \<Longrightarrow> \<not> isLeadIn (snd e) \<Longrightarrow> \<exists>s \<in> set sm. snd e = as_main s"
    using a by (metis (full_types))
  show "s \<in> set sm \<Longrightarrow> \<exists>e' \<in> set m. fst e' = orderIndex s \<and> \<not> isLeadIn (snd e')"
    using b by blast
  show "distinct (map fst m)" by (rule c)
qed

lemma selectRehearsalSteps_props:
  assumes "indexed steps"
  shows "distinct (map orderIndex (selectRehearsalSteps steps route))"
    and "p \<in> set (selectRehearsalSteps steps route) \<Longrightarrow> isLeadIn p \<Longrightarrow>
           \<exists>q \<in> set (selectRehearsalSteps steps route).
              \<not> isLeadIn q \<and> orderIndex q = Suc (orderIndex p)"
    and "p \<in> set (selectRehearsalSteps steps route) \<Longrightarrow> \<not> isLeadIn p \<Longrightarrow>
           \<exists>s \<in> set (selectedMain_of steps route). p = as_main s"
proof -
  define sm where "sm = selectedMain_of steps route"
  define m where "m = fold (add_lead_in steps) sm (main_map sm)"
  define result where "result = sort_by by_order (map_values m)"
  have out: "selectRehearsalSteps steps route =
      (if int (length result) > MAX_TARGET_POINTS then trimToMaxPoints result else result)"
    by (simp add: selectRehearsalSteps_def Let_def sm_def m_def result_def main_map_def)
  have inv: "selected_inv sm m"
    unfolding m_def by (rule fold_lead_in_inv [OF assms selected_inv_main]) simp
  have keys: "map orderIndex (map_values m) = map fst m"
    using selected_invD(1) [OF inv] by (simp add: map_values_def)
  have dr: "distinct (map orderIndex result)"
    using selected_invD(5) [OF inv] keys by (simp add: result_def distinct_map_sort_by)
  have sr: "set result = snd ` set m"
    by (simp add: result_def set_sort_by map_values_def)
  show "distinct (map orderIndex (selectRehearsalSteps steps route))"
    using dr trimToMaxPoints_props(2) [OF dr] by (simp add: out)
  have sub: "set (selectRehearsalSteps steps route) \<subseteq> set result"
    using trimToMaxPoints_props(1) [OF dr] by (simp add: out)
  show "\<exists>s \<in> set (selectedMain_of steps route). p = as_main s"
    if pm: "p \<in> set (selectRehearsalSteps steps route)" "\<not> isLeadIn p"
  proof -
    obtain e where "e \<in> set m" "p = snd e" using pm(1) sub sr by auto
    then show ?thesis using selected_invD(3) [OF inv, of e] pm(2) by (simp add: sm_def)
  qed
  show "\<exists>q \<in> set (selectRehearsalSteps steps route).
              \<not> isLeadIn q \<and> orderIndex q = Suc (orderIndex p)"
    if p: "p \<in> set (selectRehearsalSteps steps route)" "isLeadIn p"
  proof -
    obtain e where e: "e \<in> set m" "p = snd e" using p(1) sub sr by auto
    have op: "orderIndex p = fst e" using selected_invD(1) [OF inv e(1)] e(2) by simp
    obtain s where s: "s \<in> set sm" "Suc (fst e) = orderIndex s"
      using selected_invD(2) [OF inv e(1)] p(2) e(2) by auto
    obtain e' where e': "e' \<in> set m" "fst e' = orderIndex s" "\<not> isLeadIn (snd e')"
      using selected_invD(4) [OF inv s(1)] by auto
    have oq: "orderIndex (snd e') = Suc (orderIndex p)"
      using selected_invD(1) [OF inv e'(1)] e'(2) s(2) op by simp
    have qr: "snd e' \<in> set result" using e' sr by auto
    have "snd e' \<in> set (selectRehearsalSteps steps route)"
    proof (cases "int (length result) > MAX_TARGET_POINTS")
      case True
      then have "p \<in> set (trimToMaxPoints result)" using p(1) by (simp add: out)
      then show ?thesis
        using trimToMaxPoints_props(3) [OF dr _ p(2) qr e'(3)] True by (simp add: out)
    next
      case False
      then show ?thesis using qr by (simp add: out)
    qed
    then show ?thesis using e'(3) oq by blast
  qed
qed

text \<open>The flattened list numbers its entries by position.\<close>

lemma flat_entry_index: "flat_entry env oi li si st = Inr en \<Longrightarrow> orderIndex en = oi"
  by (auto simp: flat_entry_def Let_def split: sum.splits option.splits)

lemma counted_snoc:
  assumes "counted acc" "orderIndex en = snd acc"
  shows "counted (fst acc @ [en], snd acc + 1)"
  using assms by (auto simp: counted_def indexed_def nth_append)

lemma flatten_leg_counted:
  "counted acc \<Longrightarrow> flatten_leg env li sts si acc = Inr acc' \<Longrightarrow> counted acc'"
proof (induction sts arbitrary: si acc)
  case Nil
  then show ?case by simp
next
  case (Cons st sts)
  then obtain en where en: "flat_entry env (snd acc) li si st = Inr en"
    and rest: "flatten_leg env li sts (Suc si) (fst acc @ [en], snd acc + 1) = Inr acc'"
    by (auto split: sum.splits)
  have "counted (fst acc @ [en], snd acc + 1)"
    using Cons.prems(1) flat_entry_index [OF en] by (rule counted_snoc)
  then show ?case using Cons.IH rest by blast
qed

lemma flatten_legs_counted:
  "counted acc \<Longrightarrow> flatten_legs env ls li acc = Inr acc' \<Longrightarrow> counted acc'"
proof (induction ls arbitrary: li acc)
  case Nil
  then show ?case by simp
next
  case (Cons leg ls)
  then obtain acc1 where a: "flatten_leg env li (leg_steps leg) 0 acc = Inr acc1"
    and rest: "flatten_legs env ls (Suc li) acc1 = Inr acc'"
    by (auto split: sum.splits)
  have "counted acc1" using Cons.prems(1) a by (rule flatten_leg_counted)
  then show ?case using Cons.IH rest by blast
qed

lemma flattenSteps_indexed: "flattenSteps env route = Inr flat \<Longrightarrow> indexed flat"
proof -
  assume a: "flattenSteps env route = Inr flat"
  then obtain acc where acc: "flatten_legs env (legs route) 0 ([], 0) = Inr acc" "flat = fst acc"
    by (auto simp: flattenSteps_def split: sum.splits)
  have "counted ([], 0)" by (simp add: counted_def indexed_def)
  then have "counted acc" using acc(1) by (rule flatten_legs_counted)
  then show ?thesis using acc(2) by (simp add: counted_def)
qed

lemma scoreSteps_indexed: "indexed flat \<Longrightarrow> indexed (scoreSteps flat)"
  by (simp add: indexed_def scoreSteps_nth)

subsection \<open>The sample route, step by step\<close>

lemma computeHeading_same:
  "google_computeHeading env = None \<Longrightarrow> computeHeading env (Some a) (Some a) = Inr 0"
  by (simp add: computeHeading_def Let_def toRad_def toDeg_def atan2_def js_rem_def)

lemma demo_flat_entry:
  "flat_entry demo_env i 0 i (demo_step x instr meters (Some (m # ms))) =
     Inr (demo_entry i x instr meters (Some (m # ms)))"
  "flat_entry demo_env i 0 i (demo_step x instr meters None) =
     Inr (demo_entry i x instr meters None)"
  by (simp_all add: flat_entry_def demo_step_def demo_entry_def computeHeading_same demo_env_def
        stripHtml_def str_or_def opt_str_def Let_def)

lemma demo_flatten: "flattenSteps demo_env demo_route = Inr demo_flat"
  by (simp add: flattenSteps_def demo_route_def demo_flat_def demo_flat_entry numeral_2_eq_2)

lemma demo_score_0:
  "scoreStep (demo_entry i 0 ''Go'' 500 None)
     (Some \<lparr>ctx_next = Some (demo_entry j 0 ''Merge'' 300 (Some ''merge'')), ctx_prev = p\<rparr>) =
   \<lparr>score = 0, reasons = [], exclude = True, jtype = ''complex'', isPrimary = False\<rparr>"
  by code_simp

lemma demo_score_1:
  "scoreStep (demo_entry i 0 ''Merge'' 300 (Some ''merge''))
     (Some \<lparr>ctx_next = Some (demo_entry j 180 ''Merge'' 100 (Some ''merge'')), ctx_prev = p\<rparr>) =
   \<lparr>score = 12, reasons = [''lane-commitment'', ''short-window''], exclude = False,
     jtype = ''merge'', isPrimary = False\<rparr>"
  by code_simp

lemma demo_score_2:
  "scoreStep (demo_entry i 180 ''Merge'' 100 (Some ''merge''))
     (Some \<lparr>ctx_next = None, ctx_prev = p\<rparr>) =
   \<lparr>score = 6, reasons = [''lane-commitment''], exclude = False, jtype = ''merge'',
     isPrimary = False\<rparr>"
  by code_simp

lemma demo_scoreSteps: "scoreSteps demo_flat = demo_scored"
  by (simp add: scoreSteps_def demo_flat_def demo_scored_def demo_lead_def demo_first_def
        demo_second_def Let_def upt_rec demo_score_0 demo_score_1 demo_score_2)

lemma scored_step_fields:
  "orderIndex (flat_step.extend e (scored_step.fields sc)) = orderIndex e"
  "lat (flat_step.extend e (scored_step.fields sc)) = lat e"
  "lng (flat_step.extend e (scored_step.fields sc)) = lng e"
  "distanceMeters (flat_step.extend e (scored_step.fields sc)) = distanceMeters e"
  "instruction (flat_step.extend e (scored_step.fields sc)) = instruction e"
  "scored (flat_step.extend e (scored_step.fields sc)) = sc"
  by (simp_all add: flat_step.defs scored_step.defs)

lemma demo_entry_fields:
  "orderIndex (demo_entry i x instr meters man) = i" "lat (demo_entry i x instr meters man) = 0"
  "lng (demo_entry i x instr meters man) = x"
  "distanceMeters (demo_entry i x instr meters man) = meters"
  "instruction (demo_entry i x instr meters man) = instr"
  by (simp_all add: demo_entry_def)

lemma demo_target: "getTargetCount demo_route = 12"
  by (simp add: getTargetCount_def totalMeters_def demo_route_def Math_round_def clamp_def
        MIN_TARGET_POINTS_def MAX_TARGET_POINTS_def Let_def)

lemma demo_haversine:
  "haversineDistance 0 180 0 0 = 6371000 * pi" "haversineDistance 0 0 0 180 = 6371000 * pi"
  by (simp_all add: haversineDistance_def toRad_def atan2_def Let_def)

lemma demo_far: "\<not> 6371000 * pi < SPACING_METERS"
proof -
  have "(150 :: real) \<le> 6371000 * 2" by simp
  also have "\<dots> \<le> 6371000 * pi" using pi_ge_two by simp
  finally show ?thesis by (simp add: SPACING_METERS_def)
qed

lemma demo_scored_fields:
  "orderIndex demo_lead = 0" "orderIndex demo_first = 1" "orderIndex demo_second = 2"
  "lat demo_first = 0" "lng demo_first = 0" "lat demo_second = 0" "lng demo_second = 180"
  "lat demo_lead = 0" "lng demo_lead = 0"
  "distanceMeters demo_lead = 500" "distanceMeters demo_first = 300"
  "score (scored demo_lead) = 0" "score (scored demo_first) = 12"
  "score (scored demo_second) = 6" "exclude (scored demo_lead)"
  "\<not> exclude (scored demo_first)" "\<not> exclude (scored demo_second)"
  by (simp_all add: demo_lead_def demo_first_def demo_second_def scored_step_fields
        demo_entry_fields)

lemma demo_selectedMain: "selectedMain_of demo_scored demo_route = [demo_first, demo_second]"
  by (simp add: selectedMain_of_def demo_target demo_scored_def demo_scored_fields Let_def
        sort_by_def by_score_then_order_def isTooClose_def demo_haversine demo_far)

lemma demo_lead_ins:
  "getLeadInStep demo_first demo_scored = Some demo_lead"
  "getLeadInStep demo_second demo_scored = Some demo_first"
  by (simp_all add: getLeadInStep_def demo_scored_def demo_scored_fields)

lemma demo_select: "selectRehearsalSteps demo_scored demo_route = demo_selected"
proof -
  have m: "fold (add_lead_in demo_scored) [demo_first, demo_second]
             (fold (\<lambda>st m. map_set m (orderIndex st) (as_main st)) [demo_first, demo_second] []) =
           [(1, as_main demo_first), (2, as_main demo_second), (0, as_lead_in demo_lead)]"
    by (simp add: add_lead_in_def demo_lead_ins demo_scored_fields map_has_def)
  have s: "sort_by by_order [as_main demo_first, as_main demo_second, as_lead_in demo_lead] =
           demo_selected"
    by (simp add: sort_by_def by_order_def as_main_fields as_lead_in_fields demo_scored_fields
          demo_selected_def)
  show ?thesis
    unfolding selectRehearsalSteps_def demo_selectedMain Let_def m
    by (simp add: map_values_def s demo_selected_def MAX_TARGET_POINTS_def)
qed

lemma demo_selected_steps: "selected_steps_of demo_env demo_route = Inr demo_selected"
  by (simp add: selected_steps_of_def demo_flatten demo_scoreSteps demo_select)

lemma demo_analyze: "analyze demo_env (Some demo_result) = Inr demo_decision_points"
  by (simp add: analyze_def demo_result_def demo_selected_steps demo_decision_points_def
        demo_selected_def upt_rec numeral_2_eq_2)

subsection \<open>The decision points of a route\<close>

lemma analyze_Inr:
  assumes "analyze env result = Inr out"
  shows "out = [] \<or>
         (\<exists>res route rest sel. result = Some res \<and> routes res = Some (route # rest) \<and>
            selected_steps_of env route = Inr sel \<and>
            out = map (\<lambda>idx. to_decision_point (sel ! idx) idx) [0..<length sel])"
  using assms
  by (auto simp: analyze_def split: option.splits list.splits sum.splits)

lemma selected_steps_indexed:
  assumes "selected_steps_of env route = Inr sel"
  obtains flat where "flattenSteps env route = Inr flat" "indexed (scoreSteps flat)"
    "sel = selectRehearsalSteps (scoreSteps flat) route"
  using assms flattenSteps_indexed scoreSteps_indexed
  by (auto simp: selected_steps_of_def split: sum.splits)

text \<open>
  C8. For every decision point in the output of \<open>analyze\<close>, \<open>isDecisionPoint\<close> is true
  exactly when the point's score is at least \<open>8\<close>.
\<close>

theorem decision_point_threshold:
  "analyze env result = Inr out \<Longrightarrow>
     \<forall>p \<in> set out. dp_isDecisionPoint p = (dp_score p \<ge> 8)"
  using analyze_Inr [of env result out]
  by (auto simp: to_decision_point_def DECISION_SCORE_THRESHOLD_def)

theorem decision_point_threshold_witness:
  "analyze demo_env (Some demo_result) = Inr demo_decision_points \<and>
   dp_score (demo_decision_points ! 1) = 12 \<and> dp_isDecisionPoint (demo_decision_points ! 1) \<and>
   dp_score (demo_decision_points ! 2) = 6 \<and> \<not> dp_isDecisionPoint (demo_decision_points ! 2)"
proof -
  have s: "dp_score (demo_decision_points ! 1) = 12" "dp_score (demo_decision_points ! 2) = 6"
    by (simp_all add: demo_decision_points_def to_decision_point_def as_main_fields
          demo_scored_fields)
  have m: "demo_decision_points ! 1 \<in> set demo_decision_points"
    "demo_decision_points ! 2 \<in> set demo_decision_points"
    by (simp_all add: demo_decision_points_def)
  show ?thesis
    using decision_point_threshold [OF demo_analyze] s m demo_analyze by simp
qed

text \<open>
  C6. Any two distinct decision points in the output of \<open>analyze\<close> that are both not
  lead-ins lie at least 150 m apart in great-circle (haversine) distance; nothing is
  required of a pair that has a lead-in in it.
\<close>

theorem main_points_spaced:
  assumes "analyze env result = Inr out"
    and "i < length out" "j < length out" "i \<noteq> j"
    and "\<not> dp_isLeadIn (out ! i)" "\<not> dp_isLeadIn (out ! j)"
  shows "150 \<le> haversineDistance (dp_lat (out ! i)) (dp_lng (out ! i))
                  (dp_lat (out ! j)) (dp_lng (out ! j))"
proof -
  have "out \<noteq> []" using assms(2) by auto
  then obtain res route rest sel where sel: "selected_steps_of env route = Inr sel"
    and out: "out = map (\<lambda>idx. to_decision_point (sel ! idx) idx) [0..<length sel]"
    using analyze_Inr [OF assms(1)] by auto
  obtain flat where idx: "indexed (scoreSteps flat)"
    and sel_eq: "sel = selectRehearsalSteps (scoreSteps flat) route"
    using selected_steps_indexed [OF sel] by blast
  have len: "length out = length sel" by (simp add: out)
  have ij: "i < length sel" "j < length sel" using assms(2,3) len by simp_all
  have oi: "out ! i = to_decision_point (sel ! i) i" "out ! j = to_decision_point (sel ! j) j"
    using ij by (simp_all add: out)
  have nl: "\<not> isLeadIn (sel ! i)" "\<not> isLeadIn (sel ! j)"
    using assms(5,6) oi by (simp_all add: to_decision_point_def)
  have mem: "sel ! i \<in> set sel" "sel ! j \<in> set sel" using ij by simp_all
  obtain a where a: "a \<in> set (selectedMain_of (scoreSteps flat) route)" "sel ! i = as_main a"
    using selectRehearsalSteps_props(3) [OF idx, of "sel ! i" route] mem(1) nl(1) sel_eq by auto
  obtain b where b: "b \<in> set (selectedMain_of (scoreSteps flat) route)" "sel ! j = as_main b"
    using selectRehearsalSteps_props(3) [OF idx, of "sel ! j" route] mem(2) nl(2) sel_eq by auto
  have "distinct (map orderIndex sel)"
    using selectRehearsalSteps_props(1) [OF idx] sel_eq by simp
  then have "orderIndex (sel ! i) \<noteq> orderIndex (sel ! j)"
    using ij assms(4) by (simp add: distinct_conv_nth)
  then have "orderIndex a \<noteq> orderIndex b" using a(2) b(2) by (simp add: as_main_fields)
  then have "SPACING_METERS \<le> haversineDistance (lat a) (lng a) (lat b) (lng b)"
    using spaced_selectedMain [of "scoreSteps flat" route] a(1) b(1) by (simp add: spaced_def)
  then show ?thesis
    using oi a(2) b(2)
    by (simp add: to_decision_point_def as_main_fields SPACING_METERS_def)
qed

theorem main_points_spaced_witness:
  "analyze demo_env (Some demo_result) = Inr demo_decision_points \<and>
   \<not> dp_isLeadIn (demo_decision_points ! 1) \<and> \<not> dp_isLeadIn (demo_decision_points ! 2) \<and>
   150 \<le> haversineDistance (dp_lat (demo_decision_points ! 1)) (dp_lng (demo_decision_points ! 1))
            (dp_lat (demo_decision_points ! 2)) (dp_lng (demo_decision_points ! 2)) \<and>
   dp_isLeadIn (demo_decision_points ! 0) \<and>
   haversineDistance (dp_lat (demo_decision_points ! 0)) (dp_lng (demo_decision_points ! 0))
     (dp_lat (demo_decision_points ! 1)) (dp_lng (demo_decision_points ! 1)) = 0"
proof -
  have z: "dp_isLeadIn (demo_decision_points ! 0)"
    "haversineDistance (dp_lat (demo_decision_points ! 0)) (dp_lng (demo_decision_points ! 0))
       (dp_lat (demo_decision_points ! 1)) (dp_lng (demo_decision_points ! 1)) = 0"
    by (simp_all add: demo_decision_points_def to_decision_point_def as_main_fields
          as_lead_in_fields demo_scored_fields haversineDistance_def toRad_def atan2_def)
  have l: "(1::nat) < length demo_decision_points" "(2::nat) < length demo_decision_points"
    "(1::nat) \<noteq> 2"
    by (simp_all add: demo_decision_points_def)
  have n: "\<not> dp_isLeadIn (demo_decision_points ! 1)" "\<not> dp_isLeadIn (demo_decision_points ! 2)"
    by (simp_all add: demo_decision_points_def to_decision_point_def as_main_fields)
  show ?thesis
    using main_points_spaced [OF demo_analyze l n] n z demo_analyze by simp
qed

text \<open>
  C9. No lead-in is orphaned: the output of \<open>analyze\<close> is the list of selected steps turned
  into decision points one by one, and for every point with \<open>isLeadIn = true\<close> the output
  also has a point with \<open>isLeadIn = false\<close> whose step has the next order index. This holds
  after trimming too, since trimming removes every lead-in before any main point.
\<close>

theorem lead_in_not_orphaned:
  assumes "analyze env (Some res) = Inr out" "routes res = Some (route # rest)"
  shows "\<exists>sel. selected_steps_of env route = Inr sel \<and> length sel = length out \<and>
           (\<forall>i < length out. out ! i = to_decision_point (sel ! i) i) \<and>
           (\<forall>i < length out. dp_isLeadIn (out ! i) \<longrightarrow>
              (\<exists>j < length out. \<not> dp_isLeadIn (out ! j) \<and>
                 orderIndex (sel ! j) = orderIndex (sel ! i) + 1))"
proof -
  obtain sel where sel: "selected_steps_of env route = Inr sel"
    and out: "out = map (\<lambda>idx. to_decision_point (sel ! idx) idx) [0..<length sel]"
    using assms by (auto simp: analyze_def split: sum.splits)
  obtain flat where idx: "indexed (scoreSteps flat)"
    and sel_eq: "sel = selectRehearsalSteps (scoreSteps flat) route"
    using selected_steps_indexed [OF sel] by blast
  have len: "length sel = length out" by (simp add: out)
  have nth: "\<forall>i < length out. out ! i = to_decision_point (sel ! i) i"
    by (simp add: out)
  have "\<exists>j < length out. \<not> dp_isLeadIn (out ! j) \<and> orderIndex (sel ! j) = orderIndex (sel ! i) + 1"
    if i: "i < length out" and li: "dp_isLeadIn (out ! i)" for i
  proof -
    have "isLeadIn (sel ! i)" using nth i li by (simp add: to_decision_point_def)
    moreover have "sel ! i \<in> set sel" using i len by simp
    ultimately obtain q where q: "q \<in> set sel" "\<not> isLeadIn q"
      "orderIndex q = Suc (orderIndex (sel ! i))"
      using selectRehearsalSteps_props(2) [OF idx, of "sel ! i" route] sel_eq by auto
    then obtain j where j: "j < length sel" "sel ! j = q" by (auto simp: in_set_conv_nth)
    then have "\<not> dp_isLeadIn (out ! j)" using nth len q(2) by (simp add: to_decision_point_def)
    then show ?thesis using j q(3) len by auto
  qed
  then show ?thesis using sel len nth by blast
qed

theorem lead_in_not_orphaned_witness:
  "analyze demo_env (Some demo_result) = Inr demo_decision_points \<and>
   routes demo_result = Some [demo_route] \<and>
   selected_steps_of demo_env demo_route = Inr demo_selected \<and>
   dp_isLeadIn (demo_decision_points ! 0) \<and>
   (\<exists>j < length demo_decision_points. \<not> dp_isLeadIn (demo_decision_points ! j) \<and>
      orderIndex (demo_selected ! j) = orderIndex (demo_selected ! 0) + 1)"
proof -
  have r: "routes demo_result = Some (demo_route # [])" by (simp add: demo_result_def)
  have l: "dp_isLeadIn (demo_decision_points ! 0)" "0 < length demo_decision_points"
    by (simp_all add: demo_decision_points_def to_decision_point_def as_lead_in_fields)
  show ?thesis
    using lead_in_not_orphaned [OF demo_analyze r] l demo_analyze r
    by (auto simp: demo_selected_steps)
qed

text \<open>
  A route whose legs sum to \<open>0\<close> metres gets the target count \<open>8\<close>, where the formula
  gives \<open>round(0) + 5 = 5\<close>, clamped to \<open>6\<close>.
\<close>

theorem target_count_zero_counterexample:
  "getTargetCount \<lparr>legs = [\<lparr>leg_distance = Some 0, leg_steps = []\<rparr>]\<rparr> = 8 \<and>
   clamp (Math_round (real_of_int (totalMeters \<lparr>legs = [\<lparr>leg_distance = Some 0, leg_steps = []\<rparr>]\<rparr>)
            / 1000 / 7) + 5) 6 12 = 6"
  by (simp add: getTargetCount_def totalMeters_def clamp_def Math_round_def)

lemma totalMeters_sum:
  "fold (\<lambda>leg total. case leg_distance leg of Some v \<Rightarrow> total + v | None \<Rightarrow> total) ls t =
     t + sum_list (map (\<lambda>leg. case leg_distance leg of Some v \<Rightarrow> v | None \<Rightarrow> 0) ls)"
  by (induction ls arbitrary: t) (simp_all split: option.splits)

text \<open>
  C5, as the code has it. The total is the sum of the numeric leg distances. For a route
  whose total is not \<open>0\<close> the target count is \<open>round(totalKilometers /
  7) + 5\<close> clamped to \<open>[6, 12]\<close>; a total of \<open>0\<close> gives
  \<open>8\<close>. A route of 70 km gets \<open>12\<close>, and the count always lies
  in \<open>[6, 12]\<close>.
\<close>

theorem target_count:
  "totalMeters route =
     sum_list (map (\<lambda>leg. case leg_distance leg of Some v \<Rightarrow> v | None \<Rightarrow> 0) (legs route)) \<and>
   (totalMeters route \<noteq> 0 \<longrightarrow>
      getTargetCount route =
        clamp (Math_round (real_of_int (totalMeters route) / 1000 / 7) + 5) 6 12) \<and>
   (totalMeters route = 0 \<longrightarrow> getTargetCount route = 8) \<and>
   (totalMeters route = 70000 \<longrightarrow> getTargetCount route = 12) \<and>
   6 \<le> getTargetCount route \<and> getTargetCount route \<le> 12"
  by (simp add: getTargetCount_def totalMeters_def totalMeters_sum Let_def clamp_def
        Math_round_def MIN_TARGET_POINTS_def MAX_TARGET_POINTS_def)

theorem target_count_witness:
  "totalMeters demo_route = 70000 \<and> getTargetCount demo_route = 12 \<and>
   totalMeters \<lparr>legs = []\<rparr> = 0 \<and> getTargetCount \<lparr>legs = []\<rparr> = 8"
  using target_count [of demo_route] target_count [of "\<lparr>legs = []\<rparr>"]
  by (simp add: totalMeters_def demo_route_def)

subsection \<open>Scoring the roundabout scenario\<close>

lemma roundabout_text_facts:
  "roundabout_text \<noteq> []"
  "\<not> isMotorwayCruise (toLowerCase roundabout_text)"
  "matchesAny LANE_COMMITMENT_PATTERNS (toLowerCase roundabout_text)"
  "matchesAny LANE_COMMITMENT_PATTERNS roundabout_text"
  "hasExitOrdinal (toLowerCase roundabout_text)"
  "\<not> matchesAny VISUAL_OVERLOAD_PATTERNS roundabout_text"
  "\<not> matchesAny VISUAL_OVERLOAD_PATTERNS (toLowerCase roundabout_text)"
  "\<not> matchesAny SOCIAL_PRESSURE_PATTERNS (toLowerCase roundabout_text)"
  by code_simp+

lemma roundabout_maneuver:
  "maneuver st = Some ''roundabout-right'' \<Longrightarrow> maneuver_type st = Some ''roundabout''"
  by (simp add: maneuver_type_def COMPLEX_MANEUVERS_def)

lemma roundabout_step_facts:
  assumes "maneuver st = Some ''roundabout-right''"
  shows "isRoundaboutStep st roundabout_text" "hasComplexitySignal st roundabout_text"
    "deriveType st roundabout_text = ''roundabout''"
proof -
  show r: "isRoundaboutStep st roundabout_text"
    using roundabout_maneuver [OF assms] by (simp add: isRoundaboutStep_def)
  show "hasComplexitySignal st roundabout_text"
    using roundabout_text_facts(1,4)
    by (simp add: hasComplexitySignal_def str_or_def matchesAny_def)
  show "deriveType st roundabout_text = ''roundabout''"
    using r by (simp add: deriveType_def)
qed

lemma roundabout_score_last:
  assumes "instruction e = roundabout_text" "instructionHtml e = roundabout_text"
    and "maneuver (step e) = Some ''roundabout-right''" "ctx_next c = None"
  shows "scoreStep e (Some c) =
           \<lparr>score = 12, reasons = [''lane-commitment'', ''roundabout'', ''roundabout-exit''],
            exclude = False, jtype = ''roundabout'', isPrimary = True\<rparr>"
  by (simp add: scoreStep_def assms(1,2,4) roundabout_text_facts
        roundabout_step_facts [OF assms(3)] str_or_def)

text \<open>
  The text of the scenario contains the word \<open>exit\<close>, which is one of the lane-commitment
  patterns: the step gets \<open>lane-commitment\<close> too, and the score \<open>12\<close>.
\<close>

theorem roundabout_exit_counterexample:
  "score (scoreStep roundabout_entry (Some \<lparr>ctx_next = None, ctx_prev = None\<rparr>)) = 12 \<and>
   ''lane-commitment'' \<in> set (reasons (scoreStep roundabout_entry
                                          (Some \<lparr>ctx_next = None, ctx_prev = None\<rparr>)))"
  by (simp add: roundabout_score_last roundabout_entry_def)

text \<open>
  C1, as the code has it. For a step with the instruction text "At the roundabout, take
  the 2nd exit" and the maneuver code \<open>roundabout-right\<close> (whatever its
  distance, 80 m included), the reasons include \<open>lane-commitment\<close>,
  \<open>roundabout\<close> and \<open>roundabout-exit\<close>, the junction type is
  \<open>roundabout\<close>, \<open>isPrimary\<close> is true and the step is not
  excluded. Its score is at least \<open>12\<close>, and exactly \<open>12 = 6 + 4 +
  2\<close> with just those three reasons when no step follows it.
\<close>

theorem roundabout_exit_score:
  assumes "instruction e = roundabout_text" "instructionHtml e = roundabout_text"
    and "maneuver (step e) = Some ''roundabout-right''"
  shows "(ctx_next c = None \<longrightarrow>
            scoreStep e (Some c) =
              \<lparr>score = 12, reasons = [''lane-commitment'', ''roundabout'', ''roundabout-exit''],
               exclude = False, jtype = ''roundabout'', isPrimary = True\<rparr>) \<and>
         12 \<le> score (scoreStep e ctx) \<and>
         set [''lane-commitment'', ''roundabout'', ''roundabout-exit''] \<subseteq>
           set (reasons (scoreStep e ctx)) \<and>
         \<not> exclude (scoreStep e ctx) \<and> jtype (scoreStep e ctx) = ''roundabout'' \<and>
         isPrimary (scoreStep e ctx)"
proof -
  have a: "ctx_next c = None \<longrightarrow>
            scoreStep e (Some c) =
              \<lparr>score = 12, reasons = [''lane-commitment'', ''roundabout'', ''roundabout-exit''],
               exclude = False, jtype = ''roundabout'', isPrimary = True\<rparr>"
    using roundabout_score_last [OF assms] by simp
  have b: "12 \<le> score (scoreStep e ctx) \<and>
         set [''lane-commitment'', ''roundabout'', ''roundabout-exit''] \<subseteq>
           set (reasons (scoreStep e ctx)) \<and>
         \<not> exclude (scoreStep e ctx) \<and> jtype (scoreStep e ctx) = ''roundabout'' \<and>
         isPrimary (scoreStep e ctx)"
    by (simp add: scoreStep_def assms(1,2) roundabout_text_facts
          roundabout_step_facts [OF assms(3)] str_or_def Let_def split: option.splits)
  show ?thesis using a b by blast
qed

theorem roundabout_exit_score_witness:
  "instruction roundabout_entry = roundabout_text \<and>
   maneuver (step roundabout_entry) = Some ''roundabout-right'' \<and>
   distanceMeters roundabout_entry = 80 \<and>
   scoreStep roundabout_entry (Some \<lparr>ctx_next = None, ctx_prev = None\<rparr>) =
     \<lparr>score = 12, reasons = [''lane-commitment'', ''roundabout'', ''roundabout-exit''],
      exclude = False, jtype = ''roundabout'', isPrimary = True\<rparr>"
proof -
  have h: "instruction roundabout_entry = roundabout_text"
    "instructionHtml roundabout_entry = roundabout_text"
    "maneuver (step roundabout_entry) = Some ''roundabout-right''"
    by (simp_all add: roundabout_entry_def)
  show ?thesis
    using roundabout_exit_score [OF h, of "\<lparr>ctx_next = None, ctx_prev = None\<rparr>"] h
    by (simp add: roundabout_entry_def)
qed

subsection \<open>Malformed steps\<close>

lemma empty_text_facts:
  "\<not> isMotorwayCruise (toLowerCase [])"
  "\<not> matchesAny LANE_COMMITMENT_PATTERNS (toLowerCase [])"
  "\<not> hasExitOrdinal (toLowerCase [])"
  "\<not> isPrepareStep (toLowerCase [])"
  "\<not> matchesAny VISUAL_OVERLOAD_PATTERNS []"
  "\<not> matchesAny VISUAL_OVERLOAD_PATTERNS (toLowerCase [])"
  "\<not> matchesAny SOCIAL_PRESSURE_PATTERNS (toLowerCase [])"
  "\<not> list_ex (\<lambda>kw. test (fst kw) []) COMPLEXITY_KEYWORDS"
  "\<not> list_ex (\<lambda>pattern. test pattern []) ROUNDABOUT_PATTERNS"
  "\<not> list_ex (\<lambda>pattern. test pattern []) LANE_COMMITMENT_PATTERNS"
  by code_simp+

lemma empty_matches_nothing:
  "list_all (\<lambda>pattern. \<not> test pattern [])
     (ROUNDABOUT_PATTERNS @ LANE_COMMITMENT_PATTERNS @ PREPARE_PATTERNS @
      VISUAL_OVERLOAD_PATTERNS @ SOCIAL_PRESSURE_PATTERNS @ map fst COMPLEXITY_KEYWORDS)"
  "\<not> isMotorwayCruise []" "\<not> hasExitOrdinal []"
  by code_simp+

lemma empty_instruction_score:
  assumes "instruction e = []" "instructionHtml e = []" "instructions (step e) = None"
  shows "maneuver_type (step e) \<noteq> Some ''roundabout'' \<Longrightarrow>
           score (scoreStep e ctx) = 0 \<and> reasons (scoreStep e ctx) = [] \<and> exclude (scoreStep e ctx)"
    and "maneuver_type (step e) = Some ''roundabout'' \<Longrightarrow>
           score (scoreStep e ctx) =
             (if 0 < distanceMeters e \<and> distanceMeters e < 120 then 1 else 4) \<and>
           \<not> exclude (scoreStep e ctx) \<and> isPrimary (scoreStep e ctx)"
proof -
  have c: "\<not> hasComplexitySignal (step e) []"
    using assms(3) empty_text_facts(8,9,10)
    by (simp add: hasComplexitySignal_def str_or_def opt_str_def)
  have r: "isRoundaboutStep (step e) [] = (maneuver_type (step e) = Some ''roundabout'')"
    using assms(3) empty_text_facts(9) by (simp add: isRoundaboutStep_def str_or_def opt_str_def)
  show "maneuver_type (step e) \<noteq> Some ''roundabout'' \<Longrightarrow>
           score (scoreStep e ctx) = 0 \<and> reasons (scoreStep e ctx) = [] \<and> exclude (scoreStep e ctx)"
    by (simp add: scoreStep_def assms(1,2) empty_text_facts(1-7) c r str_or_def Let_def
          split: option.splits)
  show "maneuver_type (step e) = Some ''roundabout'' \<Longrightarrow>
           score (scoreStep e ctx) =
             (if 0 < distanceMeters e \<and> distanceMeters e < 120 then 1 else 4) \<and>
           \<not> exclude (scoreStep e ctx) \<and> isPrimary (scoreStep e ctx)"
    by (simp add: scoreStep_def assms(1,2) empty_text_facts(1-7) c r str_or_def Let_def
          split: option.splits)
qed

lemma computeHeading_defined:
  assumes "\<forall>g a b. google_computeHeading env = Some g \<longrightarrow> (\<exists>h. g (Some a) (Some b) = Inr h)"
  shows "\<exists>h. computeHeading env (Some a) (Some b) = Inr h"
proof (cases "google_computeHeading env")
  case None
  then show ?thesis by (simp add: computeHeading_def Let_def)
next
  case (Some g)
  then obtain h where "g (Some a) (Some b) = Inr h" using assms by blast
  then show ?thesis using Some by (simp add: computeHeading_def)
qed

lemma flat_entry_ok:
  assumes "computeHeading env (start_location st) (end_location st) = Inr h"
    and "start_location st = Some loc"
  shows "flat_entry env oi li si st =
     Inr \<lparr>orderIndex = oi, legIndex = li, stepIndex = si, step = st,
          heading = h, lat = ll_lat loc, lng = ll_lng loc,
          instructionHtml = opt_str (instructions st),
          instruction = stripHtml env (opt_str (instructions st)),
          distanceMeters = (case distance st of None \<Rightarrow> 0 | Some d \<Rightarrow> dist_value d),
          distanceText = (case distance st of None \<Rightarrow> [] | Some d \<Rightarrow> dist_text d),
          entry_maneuver =
            (case maneuver st of None \<Rightarrow> None | Some m \<Rightarrow> if m = [] then None else Some m)\<rparr>"
  using assms by (simp add: flat_entry_def Let_def str_or_def)

lemma flat_entry_throws:
  "start_location st = None \<Longrightarrow> \<exists>err. flat_entry env oi li si st = Inl err"
  by (simp add: flat_entry_def Let_def split: sum.splits)

lemma flat_entry_located:
  assumes "\<forall>g a b. google_computeHeading env = Some g \<longrightarrow> (\<exists>h. g (Some a) (Some b) = Inr h)"
    and "located st"
  shows "\<exists>en. flat_entry env oi li si st = Inr en"
proof -
  obtain a b where ab: "start_location st = Some a" "end_location st = Some b"
    using assms(2) by (auto simp: located_def)
  obtain h where "computeHeading env (start_location st) (end_location st) = Inr h"
    using computeHeading_defined [OF assms(1), of a b] ab by auto
  then show ?thesis using flat_entry_ok [OF _ ab(1)] by blast
qed

lemma flatten_leg_total:
  assumes "\<forall>g a b. google_computeHeading env = Some g \<longrightarrow> (\<exists>h. g (Some a) (Some b) = Inr h)"
    and "\<forall>st \<in> set sts. located st"
  shows "\<exists>acc'. flatten_leg env li sts si acc = Inr acc' \<and>
           length (fst acc') = length (fst acc) + length sts"
  using assms(2)
proof (induction sts arbitrary: si acc)
  case Nil
  then show ?case by simp
next
  case (Cons st sts)
  obtain en where en: "flat_entry env (snd acc) li si st = Inr en"
    using flat_entry_located [OF assms(1), of st "snd acc" li si] Cons.prems by auto
  obtain acc' where "flatten_leg env li sts (Suc si) (fst acc @ [en], snd acc + 1) = Inr acc'"
    "length (fst acc') = length (fst (fst acc @ [en], snd acc + 1)) + length sts"
    using Cons.IH [of "Suc si" "(fst acc @ [en], snd acc + 1)"] Cons.prems by auto
  then show ?case using en by simp
qed

lemma flatten_legs_total:
  assumes "\<forall>g a b. google_computeHeading env = Some g \<longrightarrow> (\<exists>h. g (Some a) (Some b) = Inr h)"
    and    "\<forall>leg \<in> set ls. \<forall>st \<in> set (leg_steps leg). located st"
  shows "\<exists>acc'. flatten_legs env ls li acc = Inr acc' \<and>
           length (fst acc') = length (fst acc) + length (concat (map leg_steps ls))"
  using assms(2)
proof (induction ls arbitrary: li acc)
  case Nil
  then show ?case by simp
next
  case (Cons leg ls)
  obtain acc1 where a: "flatten_leg env li (leg_steps leg) 0 acc = Inr acc1"
    "length (fst acc1) = length (fst acc) + length (leg_steps leg)"
    using flatten_leg_total [OF assms(1), of "leg_steps leg" li 0 acc] Cons.prems by auto
  obtain acc' where "flatten_legs env ls (Suc li) acc1 = Inr acc'"
    "length (fst acc') = length (fst acc1) + length (concat (map leg_steps ls))"
    using Cons.IH [of "Suc li" acc1] Cons.prems by auto
  then show ?case using a by simp
qed

lemma flattenSteps_total:
  assumes "\<forall>g a b. google_computeHeading env = Some g \<longrightarrow> (\<exists>h. g (Some a) (Some b) = Inr h)"
    and    "\<forall>leg \<in> set (legs route). \<forall>st \<in> set (leg_steps leg). located st"
  shows "\<exists>flat. flattenSteps env route = Inr flat \<and>
           length flat = length (concat (map leg_steps (legs route)))"
  using flatten_legs_total [OF assms, of 0 "([], 0)"]
  by (auto simp: flattenSteps_def)

lemma flat_entry_Inr:
  assumes "flat_entry env oi li si st = Inr en"
  shows "instructionHtml en = opt_str (instructions st)"
    "instruction en = stripHtml env (opt_str (instructions st))"
    "distanceMeters en = (case distance st of None \<Rightarrow> 0 | Some d \<Rightarrow> dist_value d)"
    "distanceText en = (case distance st of None \<Rightarrow> [] | Some d \<Rightarrow> dist_text d)"
proof -
  obtain h loc where "computeHeading env (start_location st) (end_location st) = Inr h"
    "start_location st = Some loc"
    using assms by (auto simp: flat_entry_def Let_def split: sum.splits option.splits)
  then have "flat_entry env oi li si st =
     Inr \<lparr>orderIndex = oi, legIndex = li, stepIndex = si, step = st,
          heading = h, lat = ll_lat loc, lng = ll_lng loc,
          instructionHtml = opt_str (instructions st),
          instruction = stripHtml env (opt_str (instructions st)),
          distanceMeters = (case distance st of None \<Rightarrow> 0 | Some d \<Rightarrow> dist_value d),
          distanceText = (case distance st of None \<Rightarrow> [] | Some d \<Rightarrow> dist_text d),
          entry_maneuver =
            (case maneuver st of None \<Rightarrow> None | Some m \<Rightarrow> if m = [] then None else Some m)\<rparr>"
    by (rule flat_entry_ok)
  then have en: "en = \<lparr>orderIndex = oi, legIndex = li, stepIndex = si, step = st,
          heading = h, lat = ll_lat loc, lng = ll_lng loc,
          instructionHtml = opt_str (instructions st),
          instruction = stripHtml env (opt_str (instructions st)),
          distanceMeters = (case distance st of None \<Rightarrow> 0 | Some d \<Rightarrow> dist_value d),
          distanceText = (case distance st of None \<Rightarrow> [] | Some d \<Rightarrow> dist_text d),
          entry_maneuver =
            (case maneuver st of None \<Rightarrow> None | Some m \<Rightarrow> if m = [] then None else Some m)\<rparr>"
    using assms by simp
  show "instructionHtml en = opt_str (instructions st)"
    "instruction en = stripHtml env (opt_str (instructions st))"
    "distanceMeters en = (case distance st of None \<Rightarrow> 0 | Some d \<Rightarrow> dist_value d)"
    "distanceText en = (case distance st of None \<Rightarrow> [] | Some d \<Rightarrow> dist_text d)"
    by (simp_all add: en)
qed

lemma analyze_total:
  "flattenSteps env route = Inr flat \<Longrightarrow> \<exists>out. analyze env (Some \<lparr>routes = Some (route # rest)\<rparr>) = Inr out"
  by (simp add: analyze_def selected_steps_of_def)

lemma unlocated_flatten: "flattenSteps demo_env (route_of [unlocated_step]) = Inl TypeError"
  by (simp add: flattenSteps_def route_of_def flat_entry_def unlocated_step_def
        computeHeading_def demo_env_def)

lemma bare_flat_entry: "flat_entry demo_env 0 0 0 (bare_step man) = Inr ((bare_entry man)\<lparr>entry_maneuver := (case man of None \<Rightarrow> None | Some m \<Rightarrow> if m = [] then None else Some m)\<rparr>)"
  by (simp add: flat_entry_def bare_step_def bare_entry_def computeHeading_same demo_env_def
        stripHtml_def str_or_def opt_str_def Let_def)

text \<open>
  A step without its start location makes \<open>analyze\<close> throw, and a step without
  instruction text whose maneuver code is a roundabout code scores \<open>4\<close> and is kept.
\<close>

theorem malformed_step_counterexample:
  "analyze demo_env (Some \<lparr>routes = Some [route_of [unlocated_step]]\<rparr>) = Inl TypeError \<and>
   flat_entry demo_env 0 0 0 (bare_step (Some ''roundabout-left'')) =
     Inr (bare_entry (Some ''roundabout-left'')) \<and>
   score (scoreStep (bare_entry (Some ''roundabout-left''))
            (Some \<lparr>ctx_next = None, ctx_prev = None\<rparr>)) = 4 \<and>
   \<not> exclude (scoreStep (bare_entry (Some ''roundabout-left''))
                (Some \<lparr>ctx_next = None, ctx_prev = None\<rparr>))"
proof -
  have a: "analyze demo_env (Some \<lparr>routes = Some [route_of [unlocated_step]]\<rparr>) = Inl TypeError"
    by (simp add: analyze_def selected_steps_of_def unlocated_flatten)
  have b: "flat_entry demo_env 0 0 0 (bare_step (Some ''roundabout-left'')) =
     Inr (bare_entry (Some ''roundabout-left''))"
    by (simp add: bare_flat_entry bare_entry_def)
  have m: "maneuver_type (step (bare_entry (Some ''roundabout-left''))) = Some ''roundabout''"
    by (simp add: bare_entry_def bare_step_def maneuver_type_def COMPLEX_MANEUVERS_def)
  have f: "instruction (bare_entry (Some ''roundabout-left'')) = []"
    "instructionHtml (bare_entry (Some ''roundabout-left'')) = []"
    "instructions (step (bare_entry (Some ''roundabout-left''))) = None"
    "distanceMeters (bare_entry (Some ''roundabout-left'')) = 0"
    by (simp_all add: bare_entry_def bare_step_def)
  show ?thesis
    using a b empty_instruction_score(2) [OF f(1,2,3) m] f(4) by simp
qed

text \<open>
  C3, as the code has it. For steps that have their coordinates the analysis does not
  throw, with the built-in heading computation and with the geometry library alike, as
  long as the library's \<open>computeHeading\<close> returns a number for two coordinates: every
  step is flattened and \<open>analyze\<close> returns. A missing distance becomes
  \<open>distanceMeters = 0\<close> and an empty distance text; a missing instruction becomes the
  empty markup, and the empty text once the DOM yields no text for it. A step with empty
  instruction matches no pattern: it scores \<open>0\<close> with no reasons and is excluded, unless
  its maneuver code is a roundabout code; then it scores \<open>4\<close> (or \<open>1\<close> when its distance
  lies strictly between 0 and 120 m) and is kept as a primary step. The start location
  is required: without it flattening throws.
\<close>

theorem malformed_step_handling:
  "((\<forall>g a b. google_computeHeading env = Some g \<longrightarrow> (\<exists>h. g (Some a) (Some b) = Inr h)) \<and>
      (\<forall>leg \<in> set (legs route). \<forall>st \<in> set (leg_steps leg). located st) \<longrightarrow>
      (\<exists>flat out. flattenSteps env route = Inr flat \<and>
         length flat = length (concat (map leg_steps (legs route))) \<and>
         analyze env (Some \<lparr>routes = Some (route # rest)\<rparr>) = Inr out)) \<and>
   (flat_entry env oi li si st = Inr en \<longrightarrow>
      (distance st = None \<longrightarrow> distanceMeters en = 0 \<and> distanceText en = []) \<and>
      (instructions st = None \<longrightarrow>
         instructionHtml en = [] \<and>
         (textContent env [] = [] \<and> innerText env [] = [] \<longrightarrow> instruction en = []))) \<and>
   (instruction e = [] \<and> instructionHtml e = [] \<and> instructions (step e) = None \<longrightarrow>
      (maneuver_type (step e) \<noteq> Some ''roundabout'' \<longrightarrow>
         score (scoreStep e ctx) = 0 \<and> reasons (scoreStep e ctx) = [] \<and>
         exclude (scoreStep e ctx)) \<and>
      (maneuver_type (step e) = Some ''roundabout'' \<longrightarrow>
         score (scoreStep e ctx) =
           (if 0 < distanceMeters e \<and> distanceMeters e < 120 then 1 else 4) \<and>
         \<not> exclude (scoreStep e ctx) \<and> isPrimary (scoreStep e ctx))) \<and>
   (start_location st = None \<longrightarrow> (\<exists>err. flat_entry env oi li si st = Inl err)) \<and>
   list_all (\<lambda>pattern. \<not> test pattern [])
     (ROUNDABOUT_PATTERNS @ LANE_COMMITMENT_PATTERNS @ PREPARE_PATTERNS @
      VISUAL_OVERLOAD_PATTERNS @ SOCIAL_PRESSURE_PATTERNS @ map fst COMPLEXITY_KEYWORDS) \<and>
   \<not> isMotorwayCruise [] \<and> \<not> hasExitOrdinal []"
proof -
  have a: "(\<forall>g a b. google_computeHeading env = Some g \<longrightarrow> (\<exists>h. g (Some a) (Some b) = Inr h)) \<and>
      (\<forall>leg \<in> set (legs route). \<forall>st \<in> set (leg_steps leg). located st) \<longrightarrow>
      (\<exists>flat out. flattenSteps env route = Inr flat \<and>
         length flat = length (concat (map leg_steps (legs route))) \<and>
         analyze env (Some \<lparr>routes = Some (route # rest)\<rparr>) = Inr out)"
    using flattenSteps_total [of env route] analyze_total [of env route _ rest] by blast
  have b: "flat_entry env oi li si st = Inr en \<longrightarrow>
      (distance st = None \<longrightarrow> distanceMeters en = 0 \<and> distanceText en = []) \<and>
      (instructions st = None \<longrightarrow>
         instructionHtml en = [] \<and>
         (textContent env [] = [] \<and> innerText env [] = [] \<longrightarrow> instruction en = []))"
    using flat_entry_Inr [of env oi li si st en]
    by (simp add: opt_str_def stripHtml_def str_or_def)
  have c: "instruction e = [] \<and> instructionHtml e = [] \<and> instructions (step e) = None \<longrightarrow>
      (maneuver_type (step e) \<noteq> Some ''roundabout'' \<longrightarrow>
         score (scoreStep e ctx) = 0 \<and> reasons (scoreStep e ctx) = [] \<and>
         exclude (scoreStep e ctx)) \<and>
      (maneuver_type (step e) = Some ''roundabout'' \<longrightarrow>
         score (scoreStep e ctx) =
           (if 0 < distanceMeters e \<and> distanceMeters e < 120 then 1 else 4) \<and>
         \<not> exclude (scoreStep e ctx) \<and> isPrimary (scoreStep e ctx))"
    using empty_instruction_score [of e ctx] by blast
  have d: "start_location st = None \<longrightarrow> (\<exists>err. flat_entry env oi li si st = Inl err)"
    using flat_entry_throws [of st env oi li si] by blast
  show ?thesis using a b c d empty_matches_nothing by blast
qed

theorem malformed_step_handling_witness:
  "google_computeHeading demo_env = None \<and> located (bare_step None) \<and>
   (\<exists>flat out. flattenSteps demo_env (route_of [bare_step None]) = Inr flat \<and> length flat = 1 \<and>
      analyze demo_env (Some \<lparr>routes = Some [route_of [bare_step None]]\<rparr>) = Inr out) \<and>
   flat_entry demo_env 0 0 0 (bare_step None) = Inr (bare_entry None) \<and>
   distanceMeters (bare_entry None) = 0 \<and> distanceText (bare_entry None) = [] \<and>
   instructionHtml (bare_entry None) = [] \<and> instruction (bare_entry None) = [] \<and>
   score (scoreStep (bare_entry None) None) = 0 \<and> exclude (scoreStep (bare_entry None) None) \<and>
   maneuver_type (step (bare_entry (Some ''roundabout-left''))) = Some ''roundabout'' \<and>
   score (scoreStep (bare_entry (Some ''roundabout-left'')) None) = 4 \<and>
   start_location unlocated_step = None \<and>
   (\<exists>err. flat_entry demo_env 0 0 0 unlocated_step = Inl err) \<and>
   google_computeHeading library_env \<noteq> None \<and>
   (\<exists>flat out. flattenSteps library_env (route_of [bare_step None]) = Inr flat \<and>
      length flat = 1 \<and>
      analyze library_env (Some \<lparr>routes = Some [route_of [bare_step None]]\<rparr>) = Inr out)"
proof -
  have e: "google_computeHeading demo_env = None" "textContent demo_env [] = []"
    "innerText demo_env [] = []"
    by (simp_all add: demo_env_def)
  have lib: "google_computeHeading library_env \<noteq> None"
    "\<forall>g a b. google_computeHeading library_env = Some g \<longrightarrow>
       (\<exists>h. g (Some a) (Some b) = Inr h)"
    by (auto simp: library_env_def)
  have loc: "\<forall>leg \<in> set (legs (route_of [bare_step None])).
               \<forall>st \<in> set (leg_steps leg). located st"
    by (simp add: located_def bare_step_def route_of_def)
  have "\<exists>flat out. flattenSteps library_env (route_of [bare_step None]) = Inr flat \<and>
      length flat = length (concat (map leg_steps (legs (route_of [bare_step None])))) \<and>
      analyze library_env (Some \<lparr>routes = Some (route_of [bare_step None] # [])\<rparr>) = Inr out"
    using malformed_step_handling [of library_env "route_of [bare_step None]" "[]" 0 0 0
        "bare_step None" "bare_entry None" "bare_entry None" None] lib(2) loc
    by blast
  then have libres: "\<exists>flat out. flattenSteps library_env (route_of [bare_step None]) = Inr flat \<and>
      length flat = 1 \<and>
      analyze library_env (Some \<lparr>routes = Some [route_of [bare_step None]]\<rparr>) = Inr out"
    by (simp add: route_of_def)
  have l: "located (bare_step None)" "legs (route_of [bare_step None]) =
      [\<lparr>leg_distance = None, leg_steps = [bare_step None]\<rparr>]"
    by (simp_all add: located_def bare_step_def route_of_def)
  have f: "flat_entry demo_env 0 0 0 (bare_step None) = Inr (bare_entry None)"
    by (simp add: bare_flat_entry bare_entry_def)
  have b: "distance (bare_step None) = None" "instructions (bare_step None) = None"
    "instruction (bare_entry man) = []" "instructionHtml (bare_entry man) = []"
    "instructions (step (bare_entry man)) = None" "distanceMeters (bare_entry man) = 0"
    "maneuver_type (step (bare_entry None)) \<noteq> Some ''roundabout''"
    "maneuver_type (step (bare_entry (Some ''roundabout-left''))) = Some ''roundabout''"
    "start_location unlocated_step = None" for man
    by (simp_all add: bare_step_def bare_entry_def maneuver_type_def COMPLEX_MANEUVERS_def
          unlocated_step_def)
  show ?thesis
    using malformed_step_handling [of demo_env "route_of [bare_step None]" "[]" 0 0 0
        "bare_step None" "bare_entry None" "bare_entry None" None]
      malformed_step_handling [of demo_env "route_of [bare_step None]" "[]" 0 0 0
        unlocated_step "bare_entry None" "bare_entry (Some ''roundabout-left'')" None]
      e l f b lib(1) libres
    by simp
qed

section \<open>Properties of the rehearsal player\<close>

declare next_op.simps [simp del] scheduleNext.simps [simp del]

lemma emitUpdate_fields:
  "panorama (emitUpdate st) = panorama st" "point_array (emitUpdate st) = point_array st"
  "points_bound (emitUpdate st) = points_bound st" "currentIndex (emitUpdate st) = currentIndex st"
  "isPlaying (emitUpdate st) = isPlaying st" "playTimer (emitUpdate st) = playTimer st"
  "speed (emitUpdate st) = speed st" "onUpdate (emitUpdate st) = onUpdate st"
  "lastShownAt (emitUpdate st) = lastShownAt st" "clock (emitUpdate st) = clock st"
  "timers (emitUpdate st) = timers st" "next_timer (emitUpdate st) = next_timer st"
  "points (emitUpdate st) = points st"
  by (simp_all add: emitUpdate_def points_def)

lemma recordCurrentDwell_fields:
  "panorama (recordCurrentDwell st) = panorama st"
  "points_bound (recordCurrentDwell st) = points_bound st"
  "currentIndex (recordCurrentDwell st) = currentIndex st"
  "isPlaying (recordCurrentDwell st) = isPlaying st"
  "playTimer (recordCurrentDwell st) = playTimer st"
  "speed (recordCurrentDwell st) = speed st" "onUpdate (recordCurrentDwell st) = onUpdate st"
  "lastShownAt (recordCurrentDwell st) = None" "clock (recordCurrentDwell st) = clock st"
  "timers (recordCurrentDwell st) = timers st" "next_timer (recordCurrentDwell st) = next_timer st"
  "updates (recordCurrentDwell st) = updates st"
  "length (point_array (recordCurrentDwell st)) = length (point_array st)"
  "length (points (recordCurrentDwell st)) = length (points st)"
  by (simp_all add: recordCurrentDwell_def points_def Let_def split: option.splits)

lemma showPoint_in_range:
  assumes "0 \<le> idx" "idx < int (length (points st))" "panorama st \<noteq> None"
  shows "\<exists>st1. showPoint idx st = Inr st1 \<and> currentIndex st1 = nat idx \<and>
           length (points st1) = length (points st) \<and> isPlaying st1 = isPlaying st \<and>
           speed st1 = speed st \<and> playTimer st1 = playTimer st \<and> timers st1 = timers st \<and>
           panorama st1 \<noteq> None"
proof -
  obtain v where v: "panorama st = Some v" using assms(3) by auto
  let ?st2 = "(recordCurrentDwell st)\<lparr>currentIndex := nat idx\<rparr>"
  let ?pt = "points ?st2 ! nat idx"
  let ?st3 = "emitUpdate (?st2\<lparr>panorama := Some \<lparr>pano_lat = dp_lat ?pt, pano_lng = dp_lng ?pt,
                 pano_heading = dp_heading ?pt\<rparr>, lastShownAt := Some (clock ?st2)\<rparr>)"
  have "showPoint idx st = Inr ?st3"
    using assms(1,2) v by (simp add: showPoint_def Let_def recordCurrentDwell_fields)
  moreover have "length (points ?st3) = length (points st)"
    using recordCurrentDwell_fields(14) [of st]
    by (simp add: emitUpdate_fields points_def recordCurrentDwell_fields)
  ultimately show ?thesis
    by (simp add: emitUpdate_fields recordCurrentDwell_fields)
qed

lemma filter_handle: "filter (\<lambda>t. fst t \<noteq> h) ts = filter (\<lambda>t. Some (fst t) \<noteq> Some h) ts"
  by simp

lemma pause_fields:
  "isPlaying (pause st) = False" "playTimer (pause st) = None"
  "currentIndex (pause st) = currentIndex st" "timers (pause st) = cancel_play_timer st"
  "point_array (pause st) = point_array st" "points_bound (pause st) = points_bound st"
  "lastShownAt (pause st) = lastShownAt st" "panorama (pause st) = panorama st"
  "speed (pause st) = speed st" "clock (pause st) = clock st" "points (pause st) = points st"
  by (simp_all add: pause_def Let_def emitUpdate_fields clearTimeout_def cancel_play_timer_def
        points_def split: option.splits)

lemma cancel_play_timer_record:
  "cancel_play_timer (recordCurrentDwell st) = cancel_play_timer st"
  by (simp add: cancel_play_timer_def recordCurrentDwell_fields)

lemma stop_at_end:
  "\<not> isPlaying (pause (recordCurrentDwell st)) \<and>
   playTimer (pause (recordCurrentDwell st)) = None \<and>
   currentIndex (pause (recordCurrentDwell st)) = currentIndex st \<and>
   timers (pause (recordCurrentDwell st)) = cancel_play_timer st"
  by (simp add: pause_fields recordCurrentDwell_fields cancel_play_timer_record)

lemma skip_runs_to_end:
  "(panorama st \<noteq> None \<longrightarrow> speed st = 0 \<longrightarrow> isPlaying st \<longrightarrow>
      (\<exists>st'. next_op st = Inr st' \<and> \<not> isPlaying st' \<and> playTimer st' = None \<and>
         currentIndex st' = max (currentIndex st) (length (points st) - 1) \<and>
         timers st' = cancel_play_timer st))"
  "(panorama st2 \<noteq> None \<longrightarrow> speed st2 = 0 \<longrightarrow> isPlaying st2 \<longrightarrow>
      (\<exists>st'. scheduleNext st2 = Inr st' \<and> \<not> isPlaying st' \<and> playTimer st' = None \<and>
         currentIndex st' = max (currentIndex st2) (length (points st2) - 1) \<and>
         timers st' = cancel_play_timer st2))"
proof (induction st and st2 rule: next_op_scheduleNext.induct)
  case (1 st)
  show ?case
  proof (intro impI)
    assume pano: "panorama st \<noteq> None" and sp: "speed st = 0" and pl: "isPlaying st"
    show "\<exists>st'. next_op st = Inr st' \<and> \<not> isPlaying st' \<and> playTimer st' = None \<and>
         currentIndex st' = max (currentIndex st) (length (points st) - 1) \<and>
         timers st' = cancel_play_timer st"
    proof (cases "int (currentIndex st) < int (length (points st)) - 1")
      case True
      then obtain st1 where s1: "showPoint (int (currentIndex st) + 1) st = Inr st1"
        and f: "currentIndex st1 = nat (int (currentIndex st) + 1)"
           "length (points st1) = length (points st)" "isPlaying st1 = isPlaying st"
           "speed st1 = speed st" "playTimer st1 = playTimer st" "timers st1 = timers st"
           "panorama st1 \<noteq> None"
        using showPoint_in_range [of "int (currentIndex st) + 1" st] pano by auto
      from "1.IH" [OF True s1] f pl sp
      obtain st' where "scheduleNext st1 = Inr st'" "\<not> isPlaying st'" "playTimer st' = None"
        "currentIndex st' = max (currentIndex st1) (length (points st1) - 1)"
        "timers st' = cancel_play_timer st1"
        by auto
      moreover have "next_op st = scheduleNext st1"
        using True s1 f pl by (simp add: next_op.simps)
      moreover have "cancel_play_timer st1 = cancel_play_timer st"
        using f by (simp add: cancel_play_timer_def)
      ultimately show ?thesis using True f by auto
    next
      case False
      then have "next_op st = Inr (pause (recordCurrentDwell st))"
        by (simp add: next_op.simps)
      moreover have "max (currentIndex st) (length (points st) - 1) = currentIndex st"
        using False by auto
      ultimately show ?thesis using stop_at_end [of st] by simp
    qed
  qed
next
  case (2 st)
  define st1 where "st1 = (case playTimer st of None \<Rightarrow> st | Some handle \<Rightarrow> clearTimeout handle st)"
  have same: "isPlaying st1 = isPlaying st" "speed st1 = speed st" "points st1 = points st"
    "currentIndex st1 = currentIndex st" "panorama st1 = panorama st" "playTimer st1 = playTimer st"
    by (simp_all add: st1_def clearTimeout_def points_def split: option.splits)
  have tm: "timers st1 = cancel_play_timer st"
    by (simp add: st1_def clearTimeout_def cancel_play_timer_def split: option.splits)
  have idem: "cancel_play_timer st1 = cancel_play_timer st"
    unfolding cancel_play_timer_def [of st1] tm same
    by (simp add: cancel_play_timer_def)
  show ?case
  proof (intro impI)
    assume pano: "panorama st \<noteq> None" and sp: "speed st = 0" and pl: "isPlaying st"
    show "\<exists>st'. scheduleNext st = Inr st' \<and> \<not> isPlaying st' \<and> playTimer st' = None \<and>
         currentIndex st' = max (currentIndex st) (length (points st) - 1) \<and>
         timers st' = cancel_play_timer st"
    proof (cases "int (currentIndex st1) \<ge> int (length (points st1)) - 1")
      case True
      then have "scheduleNext st = Inr (pause (recordCurrentDwell st1))"
        using pl same by (simp add: scheduleNext.simps [of st] st1_def [symmetric])
      moreover have "max (currentIndex st) (length (points st) - 1) = currentIndex st"
        using True same by auto
      ultimately show ?thesis using stop_at_end [of st1] same idem by simp
    next
      case False
      then have eq: "scheduleNext st = next_op st1"
        using pl sp same by (simp add: scheduleNext.simps [of st] st1_def [symmetric])
      have "\<not> \<not> isPlaying st1" "speed st1 = 0" using pl sp same by auto
      from "2.IH" [OF st1_def this(1) False this(2)] pano pl sp same
      obtain st' where "next_op st1 = Inr st'" "\<not> isPlaying st'" "playTimer st' = None"
        "currentIndex st' = max (currentIndex st1) (length (points st1) - 1)"
        "timers st' = cancel_play_timer st1"
        by auto
      then show ?thesis using eq same idem by auto
    qed
  qed
qed

lemmas player_defs = init_def showPoint_def recordCurrentDwell_def emitUpdate_def getState_def
  points_def pause_def clearTimeout_def setTimeout_def initial_player_def play_def prev_def
  goTo_def setSpeed_def destroy_def tick_def demo_point_def demo_points_def BASE_DWELL_def
  DECISION_DWELL_MULTIPLIER_def Let_def next_op.simps scheduleNext.simps

lemma demo_playing_eq:
  "demo_playing =
     \<lparr>panorama = Some \<lparr>pano_lat = 0, pano_lng = 0, pano_heading = 0\<rparr>,
      point_array = demo_points, points_bound = True, currentIndex = 0,
      isPlaying = True, playTimer = Some 1, speed = 1, onUpdate = False, lastShownAt = Some 0,
      clock = 1000, timers = [(1, 8000)], next_timer = 2, updates = []\<rparr>"
  by (simp add: demo_playing_def player_defs)

subsection \<open>The state snapshot without points\<close>

text \<open>
  C10, as the code has it. \<open>getState\<close> is total when no points are loaded: for an empty
  point list it returns progress \<open>0\<close>, no point, total \<open>0\<close> and \<open>isLast = false\<close>, and
  \<open>isFirst\<close> is true exactly when the current index is \<open>0\<close>, as it is before any \<open>init\<close>.
  \<open>destroy\<close> always empties the list and leaves the index where it was, so the state it
  leaves behind reports \<open>isFirst\<close> only if the index was \<open>0\<close>.
\<close>

theorem getState_without_points:
  "(points st = [] \<longrightarrow>
      getState st =
        \<lparr>ps_currentIndex = currentIndex st, ps_total = 0, ps_point = None,
         ps_isPlaying = isPlaying st, ps_speed = speed st, ps_progress = 0,
         ps_isFirst = (currentIndex st = 0), ps_isLast = False\<rparr>) \<and>
   points (destroy st) = [] \<and> currentIndex (destroy st) = currentIndex st \<and>
   getState (destroy st) =
     \<lparr>ps_currentIndex = currentIndex st, ps_total = 0, ps_point = None,
      ps_isPlaying = False, ps_speed = speed st, ps_progress = 0,
      ps_isFirst = (currentIndex st = 0), ps_isLast = False\<rparr>"
proof -
  have e: "points (destroy st) = []" by (simp add: destroy_def points_def)
  have f: "currentIndex (destroy st) = currentIndex st" "isPlaying (destroy st) = False"
    "speed (destroy st) = speed st"
    by (simp_all add: destroy_def recordCurrentDwell_fields pause_fields)
  show ?thesis using e f by (simp add: getState_def)
qed

theorem getState_without_points_witness:
  "points (initial_player 0) = [] \<and>
   getState (initial_player 0) =
     \<lparr>ps_currentIndex = 0, ps_total = 0, ps_point = None, ps_isPlaying = False, ps_speed = 1,
      ps_progress = 0, ps_isFirst = True, ps_isLast = False\<rparr> \<and>
   points (destroy ((initial_player 0)\<lparr>currentIndex := 2\<rparr>)) = [] \<and>
   currentIndex (destroy ((initial_player 0)\<lparr>currentIndex := 2\<rparr>)) = 2 \<and>
   \<not> ps_isFirst (getState (destroy ((initial_player 0)\<lparr>currentIndex := 2\<rparr>)))"
  using getState_without_points [of "initial_player 0"]
    getState_without_points [of "(initial_player 0)\<lparr>currentIndex := 2\<rparr>"]
  by (simp add: initial_player_def points_def)

text \<open>
  After \<open>init\<close>, one \<open>next\<close> and \<open>destroy\<close> the point list is empty and \<open>isFirst\<close> is false.
\<close>

theorem getState_isFirst_counterexample:
  "map_sum id (\<lambda>st. (points st, ps_isFirst (getState st)))
     (run [init demo_points True, next_op, Inr \<circ> destroy] (initial_player 0)) = Inr ([], False)"
  by (simp add: player_defs)

subsection \<open>Operations without points\<close>

text \<open>Initialising the sequencer with an empty list throws.\<close>

theorem init_empty_counterexample:
  "init [] True (initial_player 0) = Inl TypeError"
  by (simp add: init_def points_def initial_player_def)

lemma record_same: "lastShownAt st = None \<Longrightarrow> recordCurrentDwell st = st"
  by (simp add: recordCurrentDwell_def)

lemma isPlaying_same: "\<not> isPlaying st \<Longrightarrow> st\<lparr>isPlaying := False\<rparr> = st"
  by (cases st) simp

lemma pause_idle: "\<not> isPlaying st \<Longrightarrow> playTimer st = None \<Longrightarrow> pause st = emitUpdate st"
  by (simp add: pause_def isPlaying_same)

lemma showPoint_empty: "points st = [] \<Longrightarrow> showPoint idx st = Inr st"
  by (cases "idx < 0") (simp_all add: showPoint_def)

lemma points_stop_empty: "points st = [] \<Longrightarrow> points (pause (recordCurrentDwell st)) = []"
  using recordCurrentDwell_fields(14) [of st] by (simp add: pause_fields)

lemma next_op_empty: "points st = [] \<Longrightarrow> next_op st = Inr (pause (recordCurrentDwell st))"
  by (simp add: next_op.simps)

lemma scheduleNext_empty:
  "points st = [] \<Longrightarrow> \<exists>st'. scheduleNext st = Inr st' \<and> points st' = []"
proof -
  assume e: "points st = []"
  define st1 where "st1 = (case playTimer st of None \<Rightarrow> st | Some handle \<Rightarrow> clearTimeout handle st)"
  have e1: "points st1 = []"
    using e by (simp add: st1_def clearTimeout_same split: option.splits)
  have "points (pause (recordCurrentDwell st1)) = []"
    using e1 recordCurrentDwell_fields(14) [of st1] by (simp add: pause_fields)
  then show ?thesis
    using e1 by (simp add: scheduleNext.simps [of st] st1_def [symmetric])
qed

text \<open>
  C4, as the code has it. With an empty point list, and so before \<open>init\<close>,
  the operations \<open>play\<close>, \<open>next\<close>, \<open>prev\<close>,
  \<open>goTo\<close>, \<open>setSpeed\<close> and \<open>togglePlay\<close> never throw
  and leave the list empty; \<open>play\<close> changes nothing, and in a state that is
  not playing, has no timer, no shown point and no callback (the state before
  \<open>init\<close>) \<open>next\<close>, \<open>prev\<close>, \<open>goTo\<close> and
  \<open>togglePlay\<close> change nothing either, while \<open>setSpeed\<close> only
  stores the speed. (\<open>init\<close> itself is not among them: it needs at least one
  point.)
\<close>

theorem operations_without_points:
  "points st = [] \<Longrightarrow>
     play st = Inr st \<and>
     (\<exists>st'. next_op st = Inr st' \<and> points st' = []) \<and>
     (\<exists>st'. prev st = Inr st' \<and> points st' = []) \<and>
     (\<exists>st'. goTo idx st = Inr st' \<and> points st' = []) \<and>
     (\<exists>st'. setSpeed v st = Inr st' \<and> points st' = []) \<and>
     (\<exists>st'. togglePlay st = Inr st' \<and> points st' = []) \<and>
     (\<not> isPlaying st \<and> playTimer st = None \<and> lastShownAt st = None \<and> \<not> onUpdate st \<longrightarrow>
        next_op st = Inr st \<and> prev st = Inr st \<and> goTo idx st = Inr st \<and>
        togglePlay st = Inr st \<and> setSpeed v st = Inr (st\<lparr>speed := v\<rparr>))"
proof -
  assume e: "points st = []"
  have p: "play st = Inr st" using e by (simp add: play_def)
  have n: "next_op st = Inr (pause (recordCurrentDwell st))" using e by (rule next_op_empty)
  have n': "points (pause (recordCurrentDwell st)) = []"
    using e recordCurrentDwell_fields(14) [of st] by (simp add: pause_fields)
  have pr: "\<exists>st'. prev st = Inr st' \<and> points st' = []"
    using e scheduleNext_empty [OF e] by (simp add: prev_def showPoint_empty)
  have g: "\<exists>st'. goTo idx st = Inr st' \<and> points st' = []"
    using e scheduleNext_empty [OF e] by (simp add: goTo_def showPoint_empty)
  have e1: "points (emitUpdate (st\<lparr>speed := v\<rparr>)) = []"
    using e by (simp add: emitUpdate_fields points_def split: if_splits)
  have e2: "points (case playTimer (emitUpdate (st\<lparr>speed := v\<rparr>)) of None \<Rightarrow> emitUpdate (st\<lparr>speed := v\<rparr>)
                     | Some handle \<Rightarrow> clearTimeout handle (emitUpdate (st\<lparr>speed := v\<rparr>))) = []"
    using e1 by (simp add: clearTimeout_same split: option.splits)
  have s: "\<exists>st'. setSpeed v st = Inr st' \<and> points st' = []"
  proof (cases "isPlaying (emitUpdate (st\<lparr>speed := v\<rparr>)) \<and> speed (emitUpdate (st\<lparr>speed := v\<rparr>)) = 0")
    case True
    then show ?thesis
      using next_op_empty [OF e2] points_stop_empty [OF e2]
      by (simp add: setSpeed_def Let_def)
  next
    case False
    then show ?thesis using e1 by (auto simp: setSpeed_def Let_def)
  qed
  have t: "\<exists>st'. togglePlay st = Inr st' \<and> points st' = []"
    using e p by (simp add: togglePlay_def pause_fields)
  have q: "\<not> isPlaying st \<and> playTimer st = None \<and> lastShownAt st = None \<and> \<not> onUpdate st \<longrightarrow>
        next_op st = Inr st \<and> prev st = Inr st \<and> goTo idx st = Inr st \<and>
        togglePlay st = Inr st \<and> setSpeed v st = Inr (st\<lparr>speed := v\<rparr>)"
    using e n p
    by (simp add: record_same pause_idle emitUpdate_def prev_def goTo_def showPoint_empty
          togglePlay_def setSpeed_def Let_def)
  show ?thesis using p n n' pr g s t q by simp
qed

theorem operations_without_points_witness:
  "points (initial_player 0) = [] \<and>
   play (initial_player 0) = Inr (initial_player 0) \<and>
   next_op (initial_player 0) = Inr (initial_player 0) \<and>
   prev (initial_player 0) = Inr (initial_player 0) \<and>
   goTo 3 (initial_player 0) = Inr (initial_player 0) \<and>
   togglePlay (initial_player 0) = Inr (initial_player 0) \<and>
   setSpeed 2 (initial_player 0) = Inr ((initial_player 0)\<lparr>speed := 2\<rparr>)"
  using operations_without_points [of "initial_player 0" 3 2]
  by (simp add: initial_player_def points_def)

subsection \<open>Pausing and tearing down\<close>





lemma demo_playing_fields:
  "lastShownAt demo_playing = Some 0" "currentIndex demo_playing = 0"
  "points demo_playing = demo_points" "point_array demo_playing = demo_points"
  "playTimer demo_playing = Some 1" "timers demo_playing = [(1, 8000)]"
  "clock demo_playing = 1000" "isPlaying demo_playing" "speed demo_playing = 1"
  "panorama demo_playing \<noteq> None" "next_timer demo_playing = 2"
  "cancel_play_timer demo_playing = []" "points_bound demo_playing"
  by (simp_all add: demo_playing_eq points_def cancel_play_timer_def)


subsection \<open>The auto-advance delay\<close>

text \<open>
  A change to a non-zero speed while playing leaves the pending timer as it was armed:
  after \<open>play\<close> at speed \<open>1\<close> and \<open>setSpeed(2)\<close> the only timer still has the delay
  \<open>8000\<close>, not \<open>5000 / 2 * 1.6 = 4000\<close>.
\<close>

theorem speed_change_counterexample:
  "map_sum id (\<lambda>st. (isPlaying st, speed st, currentIndex st, timers st))
     (run [init demo_points True, play, setSpeed 2] (initial_player 0)) =
   Inr (True, 2, 0, [(1, 8000)]) \<and>
   dp_isDecisionPoint (demo_points ! 0) \<and> BASE_DWELL / 2 * DECISION_DWELL_MULTIPLIER = 4000"
  by (simp add: player_defs)

lemma setSpeed_nonzero: "v \<noteq> 0 \<Longrightarrow> setSpeed v st = Inr (emitUpdate (st\<lparr>speed := v\<rparr>))"
  by (simp add: setSpeed_def Let_def emitUpdate_fields)

text \<open>
  C7, as the code has it. While playing before the last point, the timer that
  \<open>scheduleNext\<close> arms has the delay \<open>5000 / s\<close> for the speed \<open>s \<noteq> 0\<close> of that moment,
  times \<open>1.6\<close> when the current point is a decision point, and it replaces the timer
  pending before. With the skip speed \<open>0\<close>, and on \<open>setSpeed(0)\<close> while playing, no timer
  is armed: the sequencer advances at once, and on through to the last point, where it
  stops playing. \<open>setSpeed\<close> to any non-zero speed only stores the speed: the sequencer
  keeps playing the same point and the pending timer stays as it was armed.
\<close>

theorem auto_advance_delay:
  "isPlaying st \<Longrightarrow> int (currentIndex st) < int (length (points st)) - 1 \<Longrightarrow>
     (speed st \<noteq> 0 \<longrightarrow>
        scheduleNext st =
          Inr (setTimeout
                 (BASE_DWELL / speed st *
                    (if dp_isDecisionPoint (points st ! currentIndex st)
                     then DECISION_DWELL_MULTIPLIER else 1))
                 (st\<lparr>timers := cancel_play_timer st\<rparr>))) \<and>
     (speed st = 0 \<and> panorama st \<noteq> None \<longrightarrow>
        (\<exists>st'. scheduleNext st = Inr st' \<and> currentIndex st < currentIndex st' \<and>
           int (currentIndex st') = int (length (points st)) - 1 \<and>
           \<not> isPlaying st' \<and> playTimer st' = None \<and> timers st' = cancel_play_timer st)) \<and>
     (panorama st \<noteq> None \<longrightarrow>
        (\<exists>st'. setSpeed 0 st = Inr st' \<and> currentIndex st < currentIndex st' \<and>
           int (currentIndex st') = int (length (points st)) - 1 \<and>
           \<not> isPlaying st' \<and> playTimer st' = None \<and> timers st' = cancel_play_timer st)) \<and>
     (v \<noteq> 0 \<longrightarrow>
        (\<exists>st'. setSpeed v st = Inr st' \<and> speed st' = v \<and> isPlaying st' \<and>
           timers st' = timers st \<and> playTimer st' = playTimer st \<and>
           next_timer st' = next_timer st \<and> currentIndex st' = currentIndex st \<and>
           point_array st' = point_array st \<and> lastShownAt st' = lastShownAt st))"
proof -
  assume pl: "isPlaying st" and nl: "int (currentIndex st) < int (length (points st)) - 1"
  define st1 where "st1 = (case playTimer st of None \<Rightarrow> st | Some handle \<Rightarrow> clearTimeout handle st)"
  have st1: "st1 = st\<lparr>timers := cancel_play_timer st\<rparr>"
    by (cases st) (simp add: st1_def clearTimeout_def cancel_play_timer_def split: option.splits)
  have same: "isPlaying st1 = isPlaying st" "speed st1 = speed st" "points st1 = points st"
    "currentIndex st1 = currentIndex st"
    by (simp_all add: st1 points_def)
  have a: "speed st \<noteq> 0 \<longrightarrow>
        scheduleNext st =
          Inr (setTimeout
                 (BASE_DWELL / speed st *
                    (if dp_isDecisionPoint (points st ! currentIndex st)
                     then DECISION_DWELL_MULTIPLIER else 1))
                 (st\<lparr>timers := cancel_play_timer st\<rparr>))"
    using pl nl same
    by (simp add: scheduleNext.simps [of st] st1_def [symmetric] Let_def)
       (simp add: st1)
  have m: "max (currentIndex st) (length (points st) - 1) = length (points st) - 1"
    "currentIndex st < length (points st) - 1"
    "int (length (points st) - 1) = int (length (points st)) - 1"
    using nl by auto
  have b: "speed st = 0 \<and> panorama st \<noteq> None \<longrightarrow>
        (\<exists>st'. scheduleNext st = Inr st' \<and> currentIndex st < currentIndex st' \<and>
           int (currentIndex st') = int (length (points st)) - 1 \<and>
           \<not> isPlaying st' \<and> playTimer st' = None \<and> timers st' = cancel_play_timer st)"
    using skip_runs_to_end(2) [of st] pl m by auto
  let ?s = "emitUpdate (st\<lparr>speed := 0\<rparr>)"
  let ?c = "case playTimer ?s of None \<Rightarrow> ?s | Some handle \<Rightarrow> clearTimeout handle ?s"
  have sf: "isPlaying ?c" "speed ?c = 0" "panorama ?c = panorama st" "points ?c = points st"
    "currentIndex ?c = currentIndex st" "cancel_play_timer ?c = cancel_play_timer st"
    using pl
    by (simp_all add: emitUpdate_fields clearTimeout_def points_def cancel_play_timer_def
          split: option.splits)
  have "setSpeed 0 st = next_op ?c"
    using pl by (simp add: setSpeed_def Let_def emitUpdate_fields)
  then have c: "panorama st \<noteq> None \<longrightarrow>
        (\<exists>st'. setSpeed 0 st = Inr st' \<and> currentIndex st < currentIndex st' \<and>
           int (currentIndex st') = int (length (points st)) - 1 \<and>
           \<not> isPlaying st' \<and> playTimer st' = None \<and> timers st' = cancel_play_timer st)"
    using skip_runs_to_end(1) [of ?c] sf m by auto
  have d: "v \<noteq> 0 \<longrightarrow>
        (\<exists>st'. setSpeed v st = Inr st' \<and> speed st' = v \<and> isPlaying st' \<and>
           timers st' = timers st \<and> playTimer st' = playTimer st \<and>
           next_timer st' = next_timer st \<and> currentIndex st' = currentIndex st \<and>
           point_array st' = point_array st \<and> lastShownAt st' = lastShownAt st)"
    using pl by (simp add: setSpeed_nonzero emitUpdate_fields)
  show ?thesis using a b c d by blast
qed

theorem auto_advance_delay_witness:
  "isPlaying demo_playing \<and>
   int (currentIndex demo_playing) < int (length (points demo_playing)) - 1 \<and>
   speed demo_playing = 1 \<and> dp_isDecisionPoint (points demo_playing ! 0) \<and>
   map_sum id timers (scheduleNext demo_playing) = Inr [(2, 8000)] \<and>
   map_sum id timers (scheduleNext (demo_playing\<lparr>speed := 1 / 2, currentIndex := 1\<rparr>)) =
     Inr [(2, 10000)] \<and>
   (\<exists>st'. setSpeed 0 demo_playing = Inr st' \<and> currentIndex st' = 2 \<and> \<not> isPlaying st' \<and>
      timers st' = []) \<and>
   (\<exists>st'. scheduleNext (demo_playing\<lparr>speed := 0\<rparr>) = Inr st' \<and> currentIndex st' = 2 \<and>
      \<not> isPlaying st' \<and> timers st' = []) \<and>
   (\<exists>st'. setSpeed 2 demo_playing = Inr st' \<and> speed st' = 2 \<and> isPlaying st' \<and>
      timers st' = [(1, 8000)])"
proof -
  define slow where "slow = demo_playing\<lparr>speed := 1 / 2, currentIndex := 1\<rparr>"
  define skip where "skip = demo_playing\<lparr>speed := 0\<rparr>"
  have h1: "isPlaying demo_playing" "isPlaying slow" "isPlaying skip"
    by (simp_all add: demo_playing_fields slow_def skip_def)
  have f: "points slow = demo_points" "points skip = demo_points"
    "cancel_play_timer slow = []" "cancel_play_timer skip = []"
    "currentIndex slow = 1" "currentIndex skip = 0" "speed slow = 1 / 2" "speed skip = 0"
    "next_timer slow = 2" "panorama skip \<noteq> None"
    by (simp_all add: demo_playing_fields points_def cancel_play_timer_def slow_def skip_def)
  have d: "dp_isDecisionPoint (demo_points ! 0)" "\<not> dp_isDecisionPoint (demo_points ! 1)"
    "length demo_points = 3"
    by (simp_all add: demo_points_def demo_point_def)
  have h2: "int (currentIndex demo_playing) < int (length (points demo_playing)) - 1"
    "int (currentIndex slow) < int (length (points slow)) - 1"
    "int (currentIndex skip) < int (length (points skip)) - 1"
    by (simp_all add: demo_playing_fields f d)
  have a: "map_sum id timers (scheduleNext demo_playing) = Inr [(2, 8000)]"
    using auto_advance_delay [OF h1(1) h2(1)] d
    by (simp add: demo_playing_fields setTimeout_def BASE_DWELL_def DECISION_DWELL_MULTIPLIER_def)
  have b: "map_sum id timers (scheduleNext slow) = Inr [(2, 10000)]"
    using auto_advance_delay [OF h1(2) h2(2)] d
    by (simp add: f setTimeout_def BASE_DWELL_def DECISION_DWELL_MULTIPLIER_def)
  have c: "\<exists>st'. setSpeed 0 demo_playing = Inr st' \<and> currentIndex st' = 2 \<and> \<not> isPlaying st' \<and>
      timers st' = []"
    using auto_advance_delay [OF h1(1) h2(1)] d by (auto simp: demo_playing_fields)
  have e: "\<exists>st'. scheduleNext skip = Inr st' \<and> currentIndex st' = 2 \<and> \<not> isPlaying st' \<and>
      timers st' = []"
    using auto_advance_delay [OF h1(3) h2(3)] d by (auto simp: f)
  have g: "\<exists>st'. setSpeed 2 demo_playing = Inr st' \<and> speed st' = 2 \<and> isPlaying st' \<and>
      timers st' = [(1, 8000)]"
    using auto_advance_delay [where st = demo_playing and v = 2, OF h1(1) h2(1)]
    by (auto simp: demo_playing_fields)
  show ?thesis
    using h1(1) h2(1) a b c e g d(1)
    unfolding slow_def skip_def by (simp add: demo_playing_fields)
qed

end
